theory Spec2Isabelle
  imports Main "HOL-Library.Word" "HOL-Library.Sublist"
begin

section \<open>Types the header uses but does not declare\<close>

text \<open>
  \<^verbatim>\<open>transaction_context.h\<close> includes \<^verbatim>\<open>common/typedefs.h\<close>, \<^verbatim>\<open>storage/record_buffer.h\<close>,
  \<^verbatim>\<open>storage/undo_record.h\<close> and \<^verbatim>\<open>storage/write_ahead_log/log_record.h\<close>; none of these
  headers is available. The header does no arithmetic on timestamps, table pointers
  or tuple slots: it only stores them and passes them on, so they are opaque values here.
  Entry sizes are \<^verbatim>\<open>uint32_t\<close> in the header (lines 60 and 87).
\<close>

type_synonym uint32_t = "32 word"
type_synonym timestamp_t = nat
type_synonym DataTable_ptr = nat
type_synonym TupleSlot = nat
type_synonym col_id = nat

text \<open>
  Modelled from the spec: the projected-row encoding is missing. The glossary describes a
  projected row as a subset of a tuple's columns with their values, and an initializer as
  the schema for allocating space for one.
\<close>

record ProjectedRow =
  pr_col_ids :: "col_id list"
  pr_values :: "(col_id \<times> nat) list"

record ProjectedRowInitializer =
  pri_col_ids :: "col_id list"

text \<open>
  A \<^verbatim>\<open>byte *\<close> into a pooled segment: the segment's identity and the byte offset inside it.
\<close>

type_synonym byte_ptr = "nat \<times> nat"

text \<open>
  Modelled from the spec: the record classes are missing. An Undo Record holds the owning
  transaction's timestamp, the target table and slot, the link to the previous version and
  the payload; a Redo Record holds the start timestamp, the target table and slot and the
  projected-row payload (spec, section 3).
\<close>

record UndoRecord =
  ur_timestamp :: timestamp_t
  ur_slot :: TupleSlot
  ur_table :: DataTable_ptr
  ur_next :: "byte_ptr option"
  ur_delta :: ProjectedRow

record RedoRecord =
  rr_timestamp :: timestamp_t
  rr_table :: DataTable_ptr
  rr_slot :: TupleSlot
  rr_delta :: ProjectedRow

text \<open>
  What \<^verbatim>\<open>Initialize\<close> leaves at the head of an entry: an undo record, or a log record
  whose underlying body is a redo record.
\<close>

datatype object = UndoObj UndoRecord | LogObj RedoRecord

text \<open>
  The size functions and layout constants of the missing headers are parameters of the
  model: the segment capacity, the three \<^verbatim>\<open>Size\<close> overloads the header calls, and the
  distance from the head of a log record to its underlying record body.
\<close>

record storage_defs =
  segment_capacity :: nat
  UndoRecord_Size_row :: "ProjectedRow \<Rightarrow> uint32_t"
  UndoRecord_Size_init :: "ProjectedRowInitializer \<Rightarrow> uint32_t"
  RedoRecord_Size :: "ProjectedRowInitializer \<Rightarrow> uint32_t"
  LogRecord_body_offset :: nat

datatype error = ResourceExhaustion | PreconditionViolation

section \<open>Segment pool and growable entry buffer\<close>

text \<open>
  A segment is known by the identity of its pooled block and by the sizes of the entries
  reserved in it so far, oldest first. The bytes in use are their sum; the entry with sizes
  \<open>ns\<close> before it starts at offset \<open>sum_list ns\<close>.
\<close>

record segment =
  seg_id :: nat
  seg_entries :: "nat list"

definition seg_used :: "segment \<Rightarrow> nat" where
  "seg_used sg = sum_list (seg_entries sg)"

text \<open>
  The buffer: the segments it has filled, oldest first, the segment it appends into, and
  whether it has a sink that is handed the filled segments (the log manager of the redo
  buffer). \<open>buf_filled\<close> keeps every segment the buffer has filled, also one handed to the
  sink, so that the entries written so far can be named; which segments the buffer still
  owns is \<open>owned_segments\<close> below.
\<close>

record entry_buffer =
  buf_filled :: "segment list"
  buf_current :: "segment option"
  buf_has_sink :: bool

text \<open>
  The state outside the transaction context that staging a write can reach: the shared
  segment pool (the identities of its free blocks), the contents of the pooled memory (what
  was written at an entry's head), the log manager's flush queue, and the tables' version
  chain heads.
\<close>

record world =
  pool_free :: "nat list"
  memory :: "byte_ptr \<Rightarrow> object option"
  flush_queue :: "nat list"
  version_chain :: "DataTable_ptr \<times> TupleSlot \<Rightarrow> byte_ptr option"

text \<open>
  Modelled from the spec: the segment pool is missing. \<open>acquire\<close> returns ownership of one
  fixed-size block (spec, section 4.1); of the two exhaustion policies the spec allows, this
  is the failing one, surfaced as resource exhaustion (section 7).
\<close>

definition acquire :: "world \<Rightarrow> error + (segment \<times> world)" where
  "acquire w =
     (case pool_free w of
        [] \<Rightarrow> Inl ResourceExhaustion
      | sid # rest \<Rightarrow> Inr (\<lparr>seg_id = sid, seg_entries = []\<rparr>, w\<lparr>pool_free := rest\<rparr>))"

definition has_room :: "storage_defs \<Rightarrow> segment \<Rightarrow> nat \<Rightarrow> bool" where
  "has_room L sg n \<longleftrightarrow> seg_used sg + n \<le> segment_capacity L"

definition reserve :: "segment \<Rightarrow> nat \<Rightarrow> byte_ptr \<times> segment" where
  "reserve sg n = ((seg_id sg, seg_used sg), sg\<lparr>seg_entries := seg_entries sg @ [n]\<rparr>)"

definition finalize :: "entry_buffer \<Rightarrow> segment \<Rightarrow> world \<Rightarrow> world" where
  "finalize buf sg w =
     (if buf_has_sink buf then w\<lparr>flush_queue := flush_queue w @ [seg_id sg]\<rparr> else w)"

text \<open>
  Modelled from the spec: \<^verbatim>\<open>UndoBuffer::NewEntry\<close> and \<^verbatim>\<open>RedoBuffer::NewEntry\<close> are missing.
  Section 4.2: the request reserves \<open>sz\<close> bytes contiguous within one segment; when the
  current segment lacks room it is finalized (handed to the sink, if there is one) and a new
  segment is acquired from the pool before the request is satisfied; a size beyond the
  segment capacity is a fatal precondition violation.

  \<open>NewEntry_effect\<close> is the call with the buffer and the world as it leaves them, also when
  it fails: the capacity check comes before anything else, and the pool is asked after the
  full segment was handed on. \<open>NewEntry\<close> is what the caller gets: the pointer with the new
  buffer and world, or the failure alone.
\<close>

definition NewEntry_effect ::
  "storage_defs \<Rightarrow> uint32_t \<Rightarrow> entry_buffer \<Rightarrow> world
     \<Rightarrow> (error + byte_ptr) \<times> entry_buffer \<times> world"
where
  "NewEntry_effect L sz buf w =
     (if segment_capacity L < unat sz then (Inl PreconditionViolation, buf, w)
      else
        (case buf_current buf of
           None \<Rightarrow>
             (case acquire w of
                Inl e \<Rightarrow> (Inl e, buf, w)
              | Inr (fresh, w') \<Rightarrow>
                  (case reserve fresh (unat sz) of
                     (p, sg) \<Rightarrow> (Inr p, buf\<lparr>buf_current := Some sg\<rparr>, w')))
         | Some cur \<Rightarrow>
             if has_room L cur (unat sz)
             then (case reserve cur (unat sz) of
                     (p, sg) \<Rightarrow> (Inr p, buf\<lparr>buf_current := Some sg\<rparr>, w))
             else
               (case acquire (finalize buf cur w) of
                  Inl e \<Rightarrow> (Inl e, buf, finalize buf cur w)
                | Inr (fresh, w') \<Rightarrow>
                    (case reserve fresh (unat sz) of
                       (p, sg) \<Rightarrow>
                         (Inr p,
                          buf\<lparr>buf_filled := buf_filled buf @ [cur], buf_current := Some sg\<rparr>,
                          w')))))"

definition NewEntry ::
  "storage_defs \<Rightarrow> uint32_t \<Rightarrow> entry_buffer \<Rightarrow> world \<Rightarrow> error + (byte_ptr \<times> entry_buffer \<times> world)"
where
  "NewEntry L sz buf w =
     (case NewEntry_effect L sz buf w of
        (Inl e, buf', w') \<Rightarrow> Inl e
      | (Inr p, buf', w') \<Rightarrow> Inr (p, buf', w'))"

text \<open>
  The forward scan of a buffer (spec, section 4.2): every entry written so far, with the
  pointer to its head and its size, in allocation order.
\<close>

fun entries_from :: "nat \<Rightarrow> nat \<Rightarrow> nat list \<Rightarrow> (byte_ptr \<times> nat) list" where
  "entries_from sid off [] = []"
| "entries_from sid off (n # ns) = ((sid, off), n) # entries_from sid (off + n) ns"

definition segment_entries :: "segment \<Rightarrow> (byte_ptr \<times> nat) list" where
  "segment_entries sg = entries_from (seg_id sg) 0 (seg_entries sg)"

definition buffer_segments :: "entry_buffer \<Rightarrow> segment list" where
  "buffer_segments buf =
     buf_filled buf @ (case buf_current buf of None \<Rightarrow> [] | Some cur \<Rightarrow> [cur])"

definition buffer_entries :: "entry_buffer \<Rightarrow> (byte_ptr \<times> nat) list" where
  "buffer_entries buf = concat (map segment_entries (buffer_segments buf))"

definition occupancy :: "entry_buffer \<Rightarrow> nat" where
  "occupancy buf = sum_list (map seg_used (buffer_segments buf))"

section \<open>Undo and redo records\<close>

text \<open>
  Modelled from the spec: \<^verbatim>\<open>UndoRecord::Initialize\<close> is missing (both overloads). Section
  4.3: it writes the header and the payload into the caller-provided space and returns a
  handle; the record is not linked into a chain, its link to the previous version is null.
  The payload has the columns of the given row or initializer and no values yet.
\<close>

definition UndoRecord_Initialize_row ::
  "byte_ptr \<Rightarrow> timestamp_t \<Rightarrow> TupleSlot \<Rightarrow> DataTable_ptr \<Rightarrow> ProjectedRow \<Rightarrow> world \<Rightarrow> byte_ptr \<times> world"
where
  "UndoRecord_Initialize_row head timestamp slot table redo w =
     (head,
      w\<lparr>memory := (memory w)(head \<mapsto> UndoObj
          \<lparr>ur_timestamp = timestamp, ur_slot = slot, ur_table = table, ur_next = None,
           ur_delta = \<lparr>pr_col_ids = pr_col_ids redo, pr_values = []\<rparr>\<rparr>)\<rparr>)"

definition UndoRecord_Initialize_init ::
  "byte_ptr \<Rightarrow> timestamp_t \<Rightarrow> TupleSlot \<Rightarrow> DataTable_ptr \<Rightarrow> ProjectedRowInitializer \<Rightarrow> world
     \<Rightarrow> byte_ptr \<times> world"
where
  "UndoRecord_Initialize_init head timestamp slot table initializer w =
     (head,
      w\<lparr>memory := (memory w)(head \<mapsto> UndoObj
          \<lparr>ur_timestamp = timestamp, ur_slot = slot, ur_table = table, ur_next = None,
           ur_delta = \<lparr>pr_col_ids = pri_col_ids initializer, pr_values = []\<rparr>\<rparr>)\<rparr>)"

text \<open>
  Modelled from the spec: \<^verbatim>\<open>RedoRecord::Initialize\<close> is missing. Section 4.4:
  \<open>initialize(raw_bytes, start_time, table, slot, initializer)\<close>; the header's line 88 to 90
  shows that the result is a log record with an underlying record body.
\<close>

definition RedoRecord_Initialize ::
  "byte_ptr \<Rightarrow> timestamp_t \<Rightarrow> DataTable_ptr \<Rightarrow> TupleSlot \<Rightarrow> ProjectedRowInitializer \<Rightarrow> world
     \<Rightarrow> byte_ptr \<times> world"
where
  "RedoRecord_Initialize head timestamp table slot initializer w =
     (head,
      w\<lparr>memory := (memory w)(head \<mapsto> LogObj
          \<lparr>rr_timestamp = timestamp, rr_table = table, rr_slot = slot,
           rr_delta = \<lparr>pr_col_ids = pri_col_ids initializer, pr_values = []\<rparr>\<rparr>)\<rparr>)"

text \<open>
  Modelled from the spec: \<^verbatim>\<open>LogRecord::GetUnderlyingRecordBodyAs\<close> is missing, and the spec
  does not describe it. The body is embedded in the log record, \<open>LogRecord_body_offset\<close>
  bytes after its head.
\<close>

definition GetUnderlyingRecordBodyAs :: "storage_defs \<Rightarrow> byte_ptr \<Rightarrow> byte_ptr" where
  "GetUnderlyingRecordBodyAs L log_record = (fst log_record, snd log_record + LogRecord_body_offset L)"

text \<open>Reading through a \<^verbatim>\<open>RedoRecord *\<close>: the body of the log record that starts before it.\<close>

definition RedoRecord_at :: "storage_defs \<Rightarrow> world \<Rightarrow> byte_ptr \<Rightarrow> RedoRecord option" where
  "RedoRecord_at L w p =
     (if snd p < LogRecord_body_offset L then None
      else (case memory w (fst p, snd p - LogRecord_body_offset L) of
              Some (LogObj r) \<Rightarrow> Some r
            | _ \<Rightarrow> None))"

section \<open>The transaction context\<close>

text \<open>
  The fields of line 96 to 99, without the trailing underscore of their names.
\<close>

record TransactionContext =
  start_time :: timestamp_t
  txn_id :: timestamp_t
  undo_buffer :: entry_buffer
  redo_buffer :: entry_buffer

definition UndoBuffer :: entry_buffer where
  "UndoBuffer = \<lparr>buf_filled = [], buf_current = None, buf_has_sink = False\<rparr>"

definition RedoBuffer :: "nat option \<Rightarrow> entry_buffer" where
  "RedoBuffer log_manager =
     \<lparr>buf_filled = [], buf_current = None, buf_has_sink = (log_manager \<noteq> None)\<rparr>"

text \<open>
  The constructor (line 32 to 34). Both buffers draw from the one pool of the \<open>world\<close>;
  \<open>log_manager\<close> is \<open>None\<close> for \<^verbatim>\<open>nullptr\<close>.
\<close>

definition TransactionContext_new :: "timestamp_t \<Rightarrow> timestamp_t \<Rightarrow> nat option \<Rightarrow> TransactionContext" where
  "TransactionContext_new start tid log_manager =
     \<lparr>start_time = start, txn_id = tid, undo_buffer = UndoBuffer,
      redo_buffer = RedoBuffer log_manager\<rparr>"

definition StartTime :: "TransactionContext \<Rightarrow> timestamp_t" where
  "StartTime ctx = start_time ctx"

definition TxnId :: "TransactionContext \<Rightarrow> timestamp_t" where
  "TxnId ctx = txn_id ctx"

text \<open>
  Line 58 to 62. \<^verbatim>\<open>NewEntry\<close> and \<^verbatim>\<open>txn_id_.load()\<close> are arguments of one call, evaluated
  in an order the language leaves open; \<^verbatim>\<open>NewEntry\<close> does not write the identifier, so
  either order reads the same value. A failure of \<^verbatim>\<open>NewEntry\<close> leaves the operation at once:
  the header has no handler.
\<close>

definition UndoRecordForUpdate ::
  "storage_defs \<Rightarrow> DataTable_ptr \<Rightarrow> TupleSlot \<Rightarrow> ProjectedRow \<Rightarrow> TransactionContext \<times> world
     \<Rightarrow> error + (byte_ptr \<times> TransactionContext \<times> world)"
where
  "UndoRecordForUpdate L table slot redo s =
     (case s of (ctx, w) \<Rightarrow>
        (let sz = UndoRecord_Size_row L redo in
         case NewEntry L sz (undo_buffer ctx) w of
           Inl e \<Rightarrow> Inl e
         | Inr (head, buf, w') \<Rightarrow>
             (case UndoRecord_Initialize_row head (txn_id ctx) slot table redo w' of
                (r, w'') \<Rightarrow> Inr (r, ctx\<lparr>undo_buffer := buf\<rparr>, w''))))"

text \<open>Line 71 to 75.\<close>

definition UndoRecordForInsert ::
  "storage_defs \<Rightarrow> DataTable_ptr \<Rightarrow> TupleSlot \<Rightarrow> ProjectedRowInitializer \<Rightarrow> TransactionContext \<times> world
     \<Rightarrow> error + (byte_ptr \<times> TransactionContext \<times> world)"
where
  "UndoRecordForInsert L table slot insert_record_initializer s =
     (case s of (ctx, w) \<Rightarrow>
        (case NewEntry L (UndoRecord_Size_init L insert_record_initializer) (undo_buffer ctx) w of
           Inl e \<Rightarrow> Inl e
         | Inr (result, buf, w') \<Rightarrow>
             (case UndoRecord_Initialize_init result (txn_id ctx) slot table
                     insert_record_initializer w' of
                (r, w'') \<Rightarrow> Inr (r, ctx\<lparr>undo_buffer := buf\<rparr>, w''))))"

text \<open>Line 85 to 91.\<close>

definition StageWrite ::
  "storage_defs \<Rightarrow> DataTable_ptr \<Rightarrow> TupleSlot \<Rightarrow> ProjectedRowInitializer \<Rightarrow> TransactionContext \<times> world
     \<Rightarrow> error + (byte_ptr \<times> TransactionContext \<times> world)"
where
  "StageWrite L table slot initializer s =
     (case s of (ctx, w) \<Rightarrow>
        (let sz = RedoRecord_Size L initializer in
         case NewEntry L sz (redo_buffer ctx) w of
           Inl e \<Rightarrow> Inl e
         | Inr (head, buf, w') \<Rightarrow>
             (case RedoRecord_Initialize head (start_time ctx) table slot initializer w' of
                (log_record, w'') \<Rightarrow>
                  Inr (GetUnderlyingRecordBodyAs L log_record, ctx\<lparr>redo_buffer := buf\<rparr>, w''))))"

section \<open>Callers of the staging operations\<close>


text \<open>
  A staging call on one context: one of the three operations with its arguments.
\<close>

datatype stage_call =
    CallUndoRecordForUpdate DataTable_ptr TupleSlot ProjectedRow
  | CallUndoRecordForInsert DataTable_ptr TupleSlot ProjectedRowInitializer
  | CallStageWrite DataTable_ptr TupleSlot ProjectedRowInitializer

fun stage ::
  "storage_defs \<Rightarrow> stage_call \<Rightarrow> TransactionContext \<times> world
     \<Rightarrow> error + (byte_ptr \<times> TransactionContext \<times> world)"
where
  "stage L (CallUndoRecordForUpdate table slot redo) s = UndoRecordForUpdate L table slot redo s"
| "stage L (CallUndoRecordForInsert table slot ini) s = UndoRecordForInsert L table slot ini s"
| "stage L (CallStageWrite table slot ini) s = StageWrite L table slot ini s"

text \<open>The size a call asks its buffer for, and the buffer it asks.\<close>

fun call_size :: "storage_defs \<Rightarrow> stage_call \<Rightarrow> uint32_t" where
  "call_size L (CallUndoRecordForUpdate table slot redo) = UndoRecord_Size_row L redo"
| "call_size L (CallUndoRecordForInsert table slot ini) = UndoRecord_Size_init L ini"
| "call_size L (CallStageWrite table slot ini) = RedoRecord_Size L ini"

fun call_buffer :: "stage_call \<Rightarrow> TransactionContext \<Rightarrow> entry_buffer" where
  "call_buffer (CallUndoRecordForUpdate table slot redo) ctx = undo_buffer ctx"
| "call_buffer (CallUndoRecordForInsert table slot ini) ctx = undo_buffer ctx"
| "call_buffer (CallStageWrite table slot ini) ctx = redo_buffer ctx"

text \<open>
  The head of the entry behind a returned handle: the handle itself for an undo record, the
  log record around the body for a redo record.
\<close>

fun head_of :: "storage_defs \<Rightarrow> stage_call \<Rightarrow> byte_ptr \<Rightarrow> byte_ptr" where
  "head_of L (CallStageWrite table slot ini) r = (fst r, snd r - LogRecord_body_offset L)"
| "head_of L c r = r"

definition needs_segment :: "storage_defs \<Rightarrow> entry_buffer \<Rightarrow> uint32_t \<Rightarrow> bool" where
  "needs_segment L buf sz \<longleftrightarrow>
     (case buf_current buf of None \<Rightarrow> True | Some cur \<Rightarrow> \<not> has_room L cur (unat sz))"

fun on_undo_buffer :: "stage_call \<Rightarrow> bool" where
  "on_undo_buffer (CallStageWrite table slot ini) = False"
| "on_undo_buffer c = True"

section \<open>The log subsystem and the life of a segment\<close>

text \<open>
  Modelled from the spec: the log subsystem and the pool's \<open>release\<close> are missing. Section
  4.1: \<open>release\<close> returns ownership of a block for reuse. Section 6: the log subsystem
  receives the segments the redo buffer has closed and returns each to the pool once it is
  durably persisted; the comment of line 24 to 25 of the header asks for the log manager and
  the transaction to share one pool. \<open>log_persisted\<close> is that step for the oldest segment
  in the flush queue.
\<close>

definition release :: "nat \<Rightarrow> world \<Rightarrow> world" where
  "release sid w = w\<lparr>pool_free := pool_free w @ [sid]\<rparr>"

definition log_persisted :: "world \<Rightarrow> world" where
  "log_persisted w =
     (case flush_queue w of
        [] \<Rightarrow> w
      | sid # rest \<Rightarrow> release sid (w\<lparr>flush_queue := rest\<rparr>))"

text \<open>
  What happens around one context: its owner stages a write, or the log subsystem has
  persisted a segment. A run stops at the first failure; otherwise it gives the handles
  returned, each with its call, the segments returned to the pool, and the last state.
\<close>

datatype event = Staging stage_call | LogPersisted

fun run ::
  "storage_defs \<Rightarrow> event list \<Rightarrow> TransactionContext \<times> world
     \<Rightarrow> error + ((stage_call \<times> byte_ptr) list \<times> nat list \<times> TransactionContext \<times> world)"
where
  "run L [] s = Inr ([], [], s)"
| "run L (Staging c # evs) s =
     (case stage L c s of
        Inl e \<Rightarrow> Inl e
      | Inr (r, s') \<Rightarrow>
          (case run L evs s' of
             Inl e \<Rightarrow> Inl e
           | Inr (hs, released, s'') \<Rightarrow> Inr ((c, r) # hs, released, s'')))"
| "run L (LogPersisted # evs) s =
     (case run L evs (fst s, log_persisted (snd s)) of
        Inl e \<Rightarrow> Inl e
      | Inr (hs, released, s'') \<Rightarrow> Inr (hs, take 1 (flush_queue (snd s)) @ released, s''))"

definition sizes_positive :: "storage_defs \<Rightarrow> event list \<Rightarrow> bool" where
  "sizes_positive L evs \<longleftrightarrow> (\<forall>c. Staging c \<in> set evs \<longrightarrow> 0 < unat (call_size L c))"

text \<open>
  The segments a buffer owns: its current one, and the filled ones unless they went to a
  sink. A state is well formed when no block is twice among the free blocks of the pool, the
  flush queue and the segments the two buffers own, and no owned entry is empty. A pointer
  is live when it lies in a segment the log subsystem still holds or is the head of an entry
  in a segment a buffer owns.
\<close>

definition owned_segments :: "entry_buffer \<Rightarrow> segment list" where
  "owned_segments buf =
     (if buf_has_sink buf then [] else buf_filled buf)
       @ (case buf_current buf of None \<Rightarrow> [] | Some cur \<Rightarrow> [cur])"

definition owned_ids :: "entry_buffer \<Rightarrow> nat list" where
  "owned_ids buf = map seg_id (owned_segments buf)"

definition owned_entries :: "entry_buffer \<Rightarrow> (byte_ptr \<times> nat) list" where
  "owned_entries buf = concat (map segment_entries (owned_segments buf))"

definition entries_nonempty :: "entry_buffer \<Rightarrow> bool" where
  "entries_nonempty buf \<longleftrightarrow> (\<forall>sg \<in> set (owned_segments buf). \<forall>n \<in> set (seg_entries sg). 0 < n)"

definition wf_state :: "TransactionContext \<times> world \<Rightarrow> bool" where
  "wf_state s \<longleftrightarrow>
     distinct (pool_free (snd s) @ flush_queue (snd s) @ owned_ids (undo_buffer (fst s))
                 @ owned_ids (redo_buffer (fst s)))
     \<and> entries_nonempty (undo_buffer (fst s)) \<and> entries_nonempty (redo_buffer (fst s))"

definition live :: "TransactionContext \<times> world \<Rightarrow> byte_ptr \<Rightarrow> bool" where
  "live s q \<longleftrightarrow>
     fst q \<in> set (flush_queue (snd s))
     \<or> q \<in> fst ` set (owned_entries (undo_buffer (fst s)))
     \<or> q \<in> fst ` set (owned_entries (redo_buffer (fst s)))"

section \<open>A small instance\<close>

text \<open>
  Segments of 64 bytes, records of a header and 8 bytes a column, a log record whose body
  starts 8 bytes after its head, a pool of four free blocks, and a transaction that started
  at time 5 under the identifier 1000 with logging enabled.
\<close>

definition example_defs :: storage_defs where
  "example_defs =
     \<lparr>segment_capacity = 64,
      UndoRecord_Size_row = (\<lambda>redo. 32 + 8 * word_of_nat (length (pr_col_ids redo))),
      UndoRecord_Size_init = (\<lambda>ini. 32 + 8 * word_of_nat (length (pri_col_ids ini))),
      RedoRecord_Size = (\<lambda>ini. 24 + 8 * word_of_nat (length (pri_col_ids ini))),
      LogRecord_body_offset = 8\<rparr>"

definition example_row :: ProjectedRow where
  "example_row = \<lparr>pr_col_ids = [3], pr_values = [(3, 20)]\<rparr>"

definition example_init :: ProjectedRowInitializer where
  "example_init = \<lparr>pri_col_ids = [3, 4]\<rparr>"

definition example_pool :: world where
  "example_pool =
     \<lparr>pool_free = [7, 8, 9, 10], memory = Map.empty, flush_queue = [],
      version_chain = (\<lambda>_. None)\<rparr>"

definition example_ctx :: TransactionContext where
  "example_ctx = TransactionContext_new 5 1000 (Some 1)"

definition example_undo_update :: object where
  "example_undo_update = UndoObj
     \<lparr>ur_timestamp = 1000, ur_slot = 2, ur_table = 11, ur_next = None,
      ur_delta = \<lparr>pr_col_ids = [3], pr_values = []\<rparr>\<rparr>"

definition example_undo_insert :: object where
  "example_undo_insert = UndoObj
     \<lparr>ur_timestamp = 1000, ur_slot = 4, ur_table = 11, ur_next = None,
      ur_delta = \<lparr>pr_col_ids = [3, 4], pr_values = []\<rparr>\<rparr>"

definition example_redo :: RedoRecord where
  "example_redo =
     \<lparr>rr_timestamp = 5, rr_table = 11, rr_slot = 2,
      rr_delta = \<lparr>pr_col_ids = [3, 4], pr_values = []\<rparr>\<rparr>"

definition example_state1 :: "TransactionContext \<times> world" where
  "example_state1 =
     (\<lparr>start_time = 5, txn_id = 1000,
       undo_buffer = \<lparr>buf_filled = [], buf_current = Some \<lparr>seg_id = 7, seg_entries = [40]\<rparr>,
                      buf_has_sink = False\<rparr>,
       redo_buffer = \<lparr>buf_filled = [], buf_current = None, buf_has_sink = True\<rparr>\<rparr>,
      \<lparr>pool_free = [8, 9, 10], memory = [(7, 0) \<mapsto> example_undo_update], flush_queue = [],
       version_chain = (\<lambda>_. None)\<rparr>)"

definition example_state2 :: "TransactionContext \<times> world" where
  "example_state2 =
     (\<lparr>start_time = 5, txn_id = 1000,
       undo_buffer = \<lparr>buf_filled = [], buf_current = Some \<lparr>seg_id = 7, seg_entries = [40]\<rparr>,
                      buf_has_sink = False\<rparr>,
       redo_buffer = \<lparr>buf_filled = [], buf_current = Some \<lparr>seg_id = 8, seg_entries = [40]\<rparr>,
                      buf_has_sink = True\<rparr>\<rparr>,
      \<lparr>pool_free = [9, 10],
       memory = [(7, 0) \<mapsto> example_undo_update, (8, 0) \<mapsto> LogObj example_redo],
       flush_queue = [], version_chain = (\<lambda>_. None)\<rparr>)"

definition example_state3 :: "TransactionContext \<times> world" where
  "example_state3 =
     (\<lparr>start_time = 5, txn_id = 1000,
       undo_buffer = \<lparr>buf_filled = [], buf_current = Some \<lparr>seg_id = 7, seg_entries = [40]\<rparr>,
                      buf_has_sink = False\<rparr>,
       redo_buffer = \<lparr>buf_filled = [\<lparr>seg_id = 8, seg_entries = [40]\<rparr>],
                      buf_current = Some \<lparr>seg_id = 9, seg_entries = [40]\<rparr>,
                      buf_has_sink = True\<rparr>\<rparr>,
      \<lparr>pool_free = [10],
       memory = [(7, 0) \<mapsto> example_undo_update, (8, 0) \<mapsto> LogObj example_redo,
                 (9, 0) \<mapsto> LogObj example_redo],
       flush_queue = [8], version_chain = (\<lambda>_. None)\<rparr>)"

definition example_state4 :: "TransactionContext \<times> world" where
  "example_state4 =
     (\<lparr>start_time = 5, txn_id = 1000,
       undo_buffer = \<lparr>buf_filled = [\<lparr>seg_id = 7, seg_entries = [40]\<rparr>],
                      buf_current = Some \<lparr>seg_id = 10, seg_entries = [48]\<rparr>,
                      buf_has_sink = False\<rparr>,
       redo_buffer = \<lparr>buf_filled = [\<lparr>seg_id = 8, seg_entries = [40]\<rparr>],
                      buf_current = Some \<lparr>seg_id = 9, seg_entries = [40]\<rparr>,
                      buf_has_sink = True\<rparr>\<rparr>,
      \<lparr>pool_free = [],
       memory = [(7, 0) \<mapsto> example_undo_update, (8, 0) \<mapsto> LogObj example_redo,
                 (9, 0) \<mapsto> LogObj example_redo, (10, 0) \<mapsto> example_undo_insert],
       flush_queue = [8], version_chain = (\<lambda>_. None)\<rparr>)"

definition example_wide_row :: ProjectedRow where
  "example_wide_row = \<lparr>pr_col_ids = [1, 2, 3, 4, 5], pr_values = []\<rparr>"

definition example_exhausted :: world where
  "example_exhausted = example_pool\<lparr>pool_free := []\<rparr>"

definition example_undo_recycled :: object where
  "example_undo_recycled = UndoObj
     \<lparr>ur_timestamp = 1000, ur_slot = 6, ur_table = 11, ur_next = None,
      ur_delta = \<lparr>pr_col_ids = [3], pr_values = []\<rparr>\<rparr>"

definition example_state5 :: "TransactionContext \<times> world" where
  "example_state5 =
     (\<lparr>start_time = 5, txn_id = 1000,
       undo_buffer = \<lparr>buf_filled = [\<lparr>seg_id = 7, seg_entries = [40]\<rparr>,
                                     \<lparr>seg_id = 10, seg_entries = [48]\<rparr>],
                      buf_current = Some \<lparr>seg_id = 8, seg_entries = [40]\<rparr>,
                      buf_has_sink = False\<rparr>,
       redo_buffer = \<lparr>buf_filled = [\<lparr>seg_id = 8, seg_entries = [40]\<rparr>],
                      buf_current = Some \<lparr>seg_id = 9, seg_entries = [40]\<rparr>,
                      buf_has_sink = True\<rparr>\<rparr>,
      \<lparr>pool_free = [],
       memory = [(7, 0) \<mapsto> example_undo_update, (9, 0) \<mapsto> LogObj example_redo,
                 (10, 0) \<mapsto> example_undo_insert, (8, 0) \<mapsto> example_undo_recycled],
       flush_queue = [], version_chain = (\<lambda>_. None)\<rparr>)"

definition example_quiet :: "event list" where
  "example_quiet =
     [Staging (CallStageWrite 11 2 example_init),
      Staging (CallUndoRecordForInsert 11 4 example_init)]"

definition example_recycling :: "event list" where
  "example_recycling =
     [Staging (CallStageWrite 11 2 example_init),
      Staging (CallUndoRecordForInsert 11 4 example_init),
      LogPersisted,
      Staging (CallUndoRecordForUpdate 11 6 example_row)]"

section \<open>Facts about the entry buffer\<close>

lemma NewEntry_unfold:
  "NewEntry L sz buf w =
     (if segment_capacity L < unat sz then Inl PreconditionViolation
      else
        (case buf_current buf of
           None \<Rightarrow>
             (case acquire w of
                Inl e \<Rightarrow> Inl e
              | Inr (fresh, w') \<Rightarrow>
                  (case reserve fresh (unat sz) of
                     (p, sg) \<Rightarrow> Inr (p, buf\<lparr>buf_current := Some sg\<rparr>, w')))
         | Some cur \<Rightarrow>
             if has_room L cur (unat sz)
             then (case reserve cur (unat sz) of
                     (p, sg) \<Rightarrow> Inr (p, buf\<lparr>buf_current := Some sg\<rparr>, w))
             else
               (case acquire (finalize buf cur w) of
                  Inl e \<Rightarrow> Inl e
                | Inr (fresh, w') \<Rightarrow>
                    (case reserve fresh (unat sz) of
                       (p, sg) \<Rightarrow>
                         Inr (p,
                              buf\<lparr>buf_filled := buf_filled buf @ [cur], buf_current := Some sg\<rparr>,
                              w')))))"
  by (simp add: NewEntry_def NewEntry_effect_def split: option.splits sum.splits prod.splits)

lemma entries_from_append:
  "entries_from sid off (ns @ [n]) = entries_from sid off ns @ [((sid, off + sum_list ns), n)]"
  by (induction ns arbitrary: off) (simp_all add: add.assoc)

lemma segment_entries_reserve:
  "reserve sg n = (p, sg') \<Longrightarrow> segment_entries sg' = segment_entries sg @ [(p, n)]"
  by (auto simp: reserve_def segment_entries_def seg_used_def entries_from_append)

lemma seg_used_reserve:
  "reserve sg n = (p, sg') \<Longrightarrow> seg_used sg' = seg_used sg + n"
  by (auto simp: reserve_def seg_used_def)

lemma NewEntry_entries:
  assumes "NewEntry L sz buf w = Inr (p, buf', w')"
  shows "buffer_entries buf' = buffer_entries buf @ [(p, unat sz)]"
  using assms
  by (auto simp: NewEntry_unfold buffer_entries_def buffer_segments_def acquire_def
      reserve_def segment_entries_def seg_used_def entries_from_append
      split: if_splits option.splits sum.splits list.splits prod.splits)

lemma NewEntry_occupancy:
  assumes "NewEntry L sz buf w = Inr (p, buf', w')"
  shows "occupancy buf' = occupancy buf + unat sz"
  using assms
  by (auto simp: NewEntry_unfold occupancy_def buffer_segments_def acquire_def
      reserve_def seg_used_def
      split: if_splits option.splits sum.splits list.splits prod.splits)

lemma NewEntry_world:
  assumes "NewEntry L sz buf w = Inr (p, buf', w')"
  shows "memory w' = memory w \<and> version_chain w' = version_chain w"
  using assms
  by (auto simp: NewEntry_unfold acquire_def finalize_def
      split: if_splits option.splits sum.splits list.splits prod.splits)

lemma NewEntry_buf:
  assumes "NewEntry L sz buf w = Inr (p, buf', w')"
  shows "buf_has_sink buf' = buf_has_sink buf"
  using assms
  by (auto simp: NewEntry_unfold acquire_def finalize_def
      split: if_splits option.splits sum.splits list.splits prod.splits)

lemma NewEntry_fits:
  assumes "NewEntry L sz buf w = Inr (p, buf', w')"
  shows "snd p + unat sz \<le> segment_capacity L"
  using assms
  by (auto simp: NewEntry_unfold acquire_def finalize_def reserve_def has_room_def seg_used_def
      split: if_splits option.splits sum.splits list.splits prod.splits)

lemma UndoRecordForUpdate_Inr:
  assumes "UndoRecordForUpdate L table slot redo (ctx, w) = Inr (r, ctx', w')"
  shows "\<exists>buf w1. NewEntry L (UndoRecord_Size_row L redo) (undo_buffer ctx) w = Inr (r, buf, w1)
           \<and> ctx' = ctx\<lparr>undo_buffer := buf\<rparr>
           \<and> w' = w1\<lparr>memory := (memory w1)(r \<mapsto> UndoObj
                \<lparr>ur_timestamp = txn_id ctx, ur_slot = slot, ur_table = table, ur_next = None,
                 ur_delta = \<lparr>pr_col_ids = pr_col_ids redo, pr_values = []\<rparr>\<rparr>)\<rparr>"
  using assms
  by (auto simp: UndoRecordForUpdate_def UndoRecord_Initialize_row_def Let_def
      split: sum.splits prod.splits)

lemma UndoRecordForInsert_Inr:
  assumes "UndoRecordForInsert L table slot ini (ctx, w) = Inr (r, ctx', w')"
  shows "\<exists>buf w1. NewEntry L (UndoRecord_Size_init L ini) (undo_buffer ctx) w = Inr (r, buf, w1)
           \<and> ctx' = ctx\<lparr>undo_buffer := buf\<rparr>
           \<and> w' = w1\<lparr>memory := (memory w1)(r \<mapsto> UndoObj
                \<lparr>ur_timestamp = txn_id ctx, ur_slot = slot, ur_table = table, ur_next = None,
                 ur_delta = \<lparr>pr_col_ids = pri_col_ids ini, pr_values = []\<rparr>\<rparr>)\<rparr>"
  using assms
  by (auto simp: UndoRecordForInsert_def UndoRecord_Initialize_init_def Let_def
      split: sum.splits prod.splits)

lemma StageWrite_Inr:
  assumes "StageWrite L table slot ini (ctx, w) = Inr (r, ctx', w')"
  shows "\<exists>head buf w1. NewEntry L (RedoRecord_Size L ini) (redo_buffer ctx) w = Inr (head, buf, w1)
           \<and> r = GetUnderlyingRecordBodyAs L head
           \<and> ctx' = ctx\<lparr>redo_buffer := buf\<rparr>
           \<and> w' = w1\<lparr>memory := (memory w1)(head \<mapsto> LogObj
                \<lparr>rr_timestamp = start_time ctx, rr_table = table, rr_slot = slot,
                 rr_delta = \<lparr>pr_col_ids = pri_col_ids ini, pr_values = []\<rparr>\<rparr>)\<rparr>"
  using assms
  by (auto simp: StageWrite_def RedoRecord_Initialize_def Let_def
      split: sum.splits prod.splits)

lemma entries_from_ptr:
  "(q, n) \<in> set (entries_from sid off ns) \<Longrightarrow> fst q = sid \<and> off \<le> snd q"
proof (induction ns arbitrary: off)
  case Nil
  then show ?case by simp
next
  case (Cons m ms)
  from Cons.prems have "(q, n) = ((sid, off), m) \<or> (q, n) \<in> set (entries_from sid (off + m) ms)"
    by simp
  then show ?case
  proof
    assume "(q, n) = ((sid, off), m)"
    then show ?thesis by simp
  next
    assume "(q, n) \<in> set (entries_from sid (off + m) ms)"
    from Cons.IH[OF this] show ?thesis by simp
  qed
qed

lemma entries_from_below:
  "(q, n) \<in> set (entries_from sid off ns) \<Longrightarrow> \<forall>m \<in> set ns. 0 < m \<Longrightarrow> snd q < off + sum_list ns"
proof (induction ns arbitrary: off)
  case Nil
  then show ?case by simp
next
  case (Cons m ms)
  show ?case
  proof (cases "(q, n) = ((sid, off), m)")
    case True
    with Cons.prems show ?thesis by auto
  next
    case False
    with Cons.prems have "(q, n) \<in> set (entries_from sid (off + m) ms)" by auto
    from Cons.IH[OF this] Cons.prems show ?thesis by (simp add: add.assoc)
  qed
qed

lemma segment_entries_below:
  "(q, n) \<in> set (segment_entries sg) \<Longrightarrow> \<forall>m \<in> set (seg_entries sg). 0 < m \<Longrightarrow> snd q < seg_used sg"
  using entries_from_below[of q n "seg_id sg" 0 "seg_entries sg"]
  by (simp add: segment_entries_def seg_used_def)

lemma owned_entries_segment:
  assumes "(q, n) \<in> set (owned_entries buf)"
  shows "\<exists>sg \<in> set (owned_segments buf). fst q = seg_id sg \<and> (q, n) \<in> set (segment_entries sg)"
  using assms
  by (auto simp: owned_entries_def segment_entries_def dest: entries_from_ptr)

lemma owned_entries_ids:
  "q \<in> fst ` set (owned_entries buf) \<Longrightarrow> fst q \<in> set (owned_ids buf)"
  by (auto simp: owned_ids_def dest!: owned_entries_segment)

lemma owned_entries_no_sink:
  "\<not> buf_has_sink buf \<Longrightarrow> owned_entries buf = buffer_entries buf"
  by (simp add: owned_entries_def buffer_entries_def owned_segments_def buffer_segments_def)

text \<open>The two ways a request is served: in the current segment, or in a fresh one.\<close>

lemma NewEntry_cases:
  assumes "NewEntry L sz buf w = Inr (p, buf', w')"
  shows "(\<exists>cur. buf_current buf = Some cur \<and> p = (seg_id cur, seg_used cur) \<and> w' = w
            \<and> buf' = buf\<lparr>buf_current := Some (cur\<lparr>seg_entries := seg_entries cur @ [unat sz]\<rparr>)\<rparr>)
       \<or> (pool_free w = fst p # pool_free w' \<and> snd p = 0
            \<and> buf_current buf' = Some \<lparr>seg_id = fst p, seg_entries = [unat sz]\<rparr>
            \<and> buf_has_sink buf' = buf_has_sink buf
            \<and> buf_filled buf' =
                buf_filled buf @ (case buf_current buf of None \<Rightarrow> [] | Some cur \<Rightarrow> [cur])
            \<and> flush_queue w' =
                flush_queue w @ (case buf_current buf of
                                   None \<Rightarrow> []
                                 | Some cur \<Rightarrow> if buf_has_sink buf then [seg_id cur] else []))"
  using assms
  by (auto simp: NewEntry_unfold acquire_def finalize_def reserve_def seg_used_def
      split: if_splits option.splits sum.splits list.splits prod.splits)

lemma NewEntry_owned_ids:
  assumes "NewEntry L sz buf w = Inr (p, buf', w')"
  shows "(pool_free w' = pool_free w \<and> flush_queue w' = flush_queue w
            \<and> owned_ids buf' = owned_ids buf \<and> fst p \<in> set (owned_ids buf))
       \<or> (pool_free w = fst p # pool_free w' \<and> flush_queue w' = flush_queue w
            \<and> owned_ids buf' = owned_ids buf @ [fst p])
       \<or> (pool_free w = fst p # pool_free w' \<and> flush_queue w' = flush_queue w @ owned_ids buf
            \<and> owned_ids buf' = [fst p])"
  using NewEntry_cases[OF assms]
  by (auto simp: owned_ids_def owned_segments_def split: option.splits if_splits)

lemma NewEntry_distinct:
  assumes n: "NewEntry L sz buf w = Inr (p, buf', w')"
  shows "distinct (pool_free w @ flush_queue w @ owned_ids buf @ ids)
           \<Longrightarrow> distinct (pool_free w' @ flush_queue w' @ owned_ids buf' @ ids)"
    and "distinct (pool_free w @ flush_queue w @ ids @ owned_ids buf)
           \<Longrightarrow> distinct (pool_free w' @ flush_queue w' @ ids @ owned_ids buf')"
  using NewEntry_owned_ids[OF n] by auto

lemma NewEntry_nonempty:
  assumes "NewEntry L sz buf w = Inr (p, buf', w')" "entries_nonempty buf" "0 < unat sz"
  shows "entries_nonempty buf'"
  using NewEntry_cases[OF assms(1)] assms(2,3)
  by (auto simp: entries_nonempty_def owned_segments_def split: option.splits if_splits)

lemma current_owned:
  assumes "buf_current buf = Some sg" "(q, n) \<in> set (segment_entries sg)"
  shows "q \<in> fst ` set (owned_entries buf)"
proof -
  from assms(1) have "sg \<in> set (owned_segments buf)"
    by (simp add: owned_segments_def)
  with assms(2) have "(q, n) \<in> set (owned_entries buf)"
    unfolding owned_entries_def by auto
  then show ?thesis by (rule rev_image_eqI) simp
qed

lemma NewEntry_head_owned:
  assumes "NewEntry L sz buf w = Inr (p, buf', w')"
  shows "p \<in> fst ` set (owned_entries buf')"
proof -
  from NewEntry_cases[OF assms] show ?thesis
  proof (elim disjE exE conjE)
    fix cur
    assume c: "p = (seg_id cur, seg_used cur)"
      "buf' = buf\<lparr>buf_current := Some (cur\<lparr>seg_entries := seg_entries cur @ [unat sz]\<rparr>)\<rparr>"
    let ?sg = "cur\<lparr>seg_entries := seg_entries cur @ [unat sz]\<rparr>"
    have "buf_current buf' = Some ?sg" by (simp add: c(2))
    moreover have "(p, unat sz) \<in> set (segment_entries ?sg)"
      by (simp add: c(1) segment_entries_def entries_from_append seg_used_def)
    ultimately show ?thesis by (rule current_owned)
  next
    assume f: "snd p = 0" "buf_current buf' = Some \<lparr>seg_id = fst p, seg_entries = [unat sz]\<rparr>"
    have "(p, unat sz) \<in> set (segment_entries \<lparr>seg_id = fst p, seg_entries = [unat sz]\<rparr>)"
      using f(1) by (cases p) (simp add: segment_entries_def)
    with f(2) show ?thesis by (rule current_owned)
  qed
qed

lemma NewEntry_keeps_live:
  assumes n: "NewEntry L sz buf w = Inr (p, buf', w')"
    and q: "fst q \<in> set (flush_queue w) \<or> q \<in> fst ` set (owned_entries buf)"
  shows "fst q \<in> set (flush_queue w') \<or> q \<in> fst ` set (owned_entries buf')"
proof -
  from NewEntry_cases[OF n] show ?thesis
  proof (elim disjE exE conjE)
    fix cur
    assume c: "buf_current buf = Some cur" "w' = w"
      "buf' = buf\<lparr>buf_current := Some (cur\<lparr>seg_entries := seg_entries cur @ [unat sz]\<rparr>)\<rparr>"
    have "set (owned_entries buf) \<subseteq> set (owned_entries buf')"
      by (auto simp: c owned_entries_def owned_segments_def segment_entries_def entries_from_append)
    with q c(2) show ?thesis by auto
  next
    assume f: "buf_current buf' = Some \<lparr>seg_id = fst p, seg_entries = [unat sz]\<rparr>"
      "buf_has_sink buf' = buf_has_sink buf"
      "buf_filled buf' =
                buf_filled buf @ (case buf_current buf of None \<Rightarrow> [] | Some cur \<Rightarrow> [cur])"
      "flush_queue w' =
                flush_queue w @ (case buf_current buf of
                                   None \<Rightarrow> []
                                 | Some cur \<Rightarrow> if buf_has_sink buf then [seg_id cur] else [])"
    show ?thesis
    proof (cases "buf_has_sink buf")
      case False
      then have "set (owned_entries buf) \<subseteq> set (owned_entries buf')"
        using f by (auto simp: owned_entries_def owned_segments_def split: option.splits)
      with q f(4) show ?thesis by auto
    next
      case True
      from q show ?thesis
      proof
        assume "fst q \<in> set (flush_queue w)"
        then show ?thesis by (simp add: f(4))
      next
        assume "q \<in> fst ` set (owned_entries buf)"
        then have "fst q \<in> set (owned_ids buf)" by (rule owned_entries_ids)
        with True have "fst q \<in> set (flush_queue w')"
          by (auto simp: f(4) owned_ids_def owned_segments_def split: option.splits)
        then show ?thesis ..
      qed
    qed
  qed
qed

lemma NewEntry_new_ptr:
  assumes n: "NewEntry L sz buf w = Inr (p, buf', w')"
    and d: "distinct (pool_free w @ flush_queue w @ owned_ids buf @ ids)"
    and ne: "entries_nonempty buf"
  shows "p \<notin> fst ` set (owned_entries buf) \<and> fst p \<notin> set (flush_queue w) \<and> fst p \<notin> set ids"
proof -
  from NewEntry_cases[OF n] show ?thesis
  proof (elim disjE exE conjE)
    fix cur
    assume c: "buf_current buf = Some cur" "p = (seg_id cur, seg_used cur)"
    then have own: "cur \<in> set (owned_segments buf)" "fst p \<in> set (owned_ids buf)"
      by (simp_all add: owned_segments_def owned_ids_def)
    with d have out: "fst p \<notin> set (flush_queue w)" "fst p \<notin> set ids" by auto
    have "p \<notin> fst ` set (owned_entries buf)"
    proof
      assume "p \<in> fst ` set (owned_entries buf)"
      then obtain m where "(p, m) \<in> set (owned_entries buf)" by auto
      from owned_entries_segment[OF this] obtain sg where
        sg: "sg \<in> set (owned_segments buf)" "fst p = seg_id sg" "(p, m) \<in> set (segment_entries sg)"
        by blast
      from ne sg(1) have "\<forall>k \<in> set (seg_entries sg). 0 < k"
        by (simp add: entries_nonempty_def)
      from segment_entries_below[OF sg(3) this] have below: "snd p < seg_used sg" .
      from d have "distinct (map seg_id (owned_segments buf))" by (simp add: owned_ids_def)
      with sg(1,2) own(1) c(2) have "sg = cur"
        by (auto simp: distinct_map inj_on_def)
      with below c(2) show False by simp
    qed
    with out show ?thesis by simp
  next
    assume "pool_free w = fst p # pool_free w'"
    with d have "fst p \<notin> set (flush_queue w)" "fst p \<notin> set (owned_ids buf)" "fst p \<notin> set ids"
      by auto
    moreover from \<open>fst p \<notin> set (owned_ids buf)\<close> have "p \<notin> fst ` set (owned_entries buf)"
      using owned_entries_ids[of p buf] by blast
    ultimately show ?thesis by simp
  qed
qed

lemma stage_decomp:
  assumes "stage L c (ctx, w) = Inr (r, ctx', w')"
  shows "\<exists>buf w1 obj.
           NewEntry L (call_size L c) (call_buffer c ctx) w = Inr (head_of L c r, buf, w1)
         \<and> w' = w1\<lparr>memory := (memory w1)(head_of L c r \<mapsto> obj)\<rparr>
         \<and> call_buffer c ctx' = buf
         \<and> ((call_buffer c ctx = undo_buffer ctx \<and> undo_buffer ctx' = buf
                \<and> redo_buffer ctx' = redo_buffer ctx)
            \<or> (call_buffer c ctx = redo_buffer ctx \<and> redo_buffer ctx' = buf
                \<and> undo_buffer ctx' = undo_buffer ctx))
         \<and> start_time ctx' = start_time ctx \<and> txn_id ctx' = txn_id ctx"
proof (cases c)
  case (CallUndoRecordForUpdate table slot redo)
  with assms have "UndoRecordForUpdate L table slot redo (ctx, w) = Inr (r, ctx', w')" by simp
  from UndoRecordForUpdate_Inr[OF this] show ?thesis
    unfolding CallUndoRecordForUpdate by (elim exE conjE) (intro exI conjI, auto)
next
  case (CallUndoRecordForInsert table slot ini)
  with assms have "UndoRecordForInsert L table slot ini (ctx, w) = Inr (r, ctx', w')" by simp
  from UndoRecordForInsert_Inr[OF this] show ?thesis
    unfolding CallUndoRecordForInsert by (elim exE conjE) (intro exI conjI, auto)
next
  case (CallStageWrite table slot ini)
  with assms have "StageWrite L table slot ini (ctx, w) = Inr (r, ctx', w')" by simp
  from StageWrite_Inr[OF this] show ?thesis
    unfolding CallStageWrite by (elim exE conjE) (intro exI conjI, auto simp: GetUnderlyingRecordBodyAs_def)
qed

lemma stage_step:
  assumes wf: "wf_state (ctx, w)"
    and pos: "0 < unat (call_size L c)"
    and st: "stage L c (ctx, w) = Inr (r, ctx', w')"
  shows "wf_state (ctx', w')
    \<and> (\<forall>q. live (ctx, w) q \<longrightarrow> live (ctx', w') q \<and> memory w' q = memory w q)
    \<and> head_of L c r \<in> fst ` set (owned_entries (call_buffer c ctx'))
    \<and> memory w' (head_of L c r) \<noteq> None"
proof -
  from stage_decomp[OF st] obtain buf w1 obj where
    n: "NewEntry L (call_size L c) (call_buffer c ctx) w = Inr (head_of L c r, buf, w1)"
    and w': "w' = w1\<lparr>memory := (memory w1)(head_of L c r \<mapsto> obj)\<rparr>"
    and cb: "call_buffer c ctx' = buf"
    and side: "(call_buffer c ctx = undo_buffer ctx \<and> undo_buffer ctx' = buf
                \<and> redo_buffer ctx' = redo_buffer ctx)
            \<or> (call_buffer c ctx = redo_buffer ctx \<and> redo_buffer ctx' = buf
                \<and> undo_buffer ctx' = undo_buffer ctx)"
    by blast
  let ?h = "head_of L c r"
  from wf have d: "distinct (pool_free w @ flush_queue w @ owned_ids (undo_buffer ctx)
      @ owned_ids (redo_buffer ctx))"
    and nu: "entries_nonempty (undo_buffer ctx)" and nr: "entries_nonempty (redo_buffer ctx)"
    by (simp_all add: wf_state_def)
  have mem: "memory w' = (memory w)(?h \<mapsto> obj)"
    using NewEntry_world[OF n] by (simp add: w')
  have pool: "pool_free w' = pool_free w1" "flush_queue w' = flush_queue w1" by (simp_all add: w')
  have own: "?h \<in> fst ` set (owned_entries (call_buffer c ctx'))"
    unfolding cb by (rule NewEntry_head_owned[OF n])
  from side show ?thesis
  proof (elim disjE conjE)
    assume s: "call_buffer c ctx = undo_buffer ctx" "undo_buffer ctx' = buf"
      "redo_buffer ctx' = redo_buffer ctx"
    note n' = n[unfolded s(1)]
    note fresh = NewEntry_new_ptr[OF n' d nu]
    from fresh have f3: "?h \<notin> fst ` set (owned_entries (redo_buffer ctx))"
      using owned_entries_ids[of ?h "redo_buffer ctx"] by blast
    have wf': "wf_state (ctx', w')"
      using NewEntry_distinct(1)[OF n' d] NewEntry_nonempty[OF n' nu] nr pos
      by (simp add: wf_state_def s pool)
    have keep: "\<forall>q. live (ctx, w) q \<longrightarrow> live (ctx', w') q \<and> memory w' q = memory w q"
    proof (intro allI impI)
      fix q
      assume l: "live (ctx, w) q"
      with fresh f3 have "q \<noteq> ?h" unfolding live_def fst_conv snd_conv by blast
      then have m: "memory w' q = memory w q" by (simp add: mem)
      from l have "(fst q \<in> set (flush_queue w) \<or> q \<in> fst ` set (owned_entries (undo_buffer ctx)))
          \<or> q \<in> fst ` set (owned_entries (redo_buffer ctx))"
        unfolding live_def fst_conv snd_conv by blast
      then have "live (ctx', w') q"
      proof
        assume "fst q \<in> set (flush_queue w) \<or> q \<in> fst ` set (owned_entries (undo_buffer ctx))"
        from NewEntry_keeps_live[OF n' this] show ?thesis
          unfolding live_def fst_conv snd_conv s pool by blast
      next
        assume "q \<in> fst ` set (owned_entries (redo_buffer ctx))"
        then show ?thesis unfolding live_def fst_conv snd_conv s by blast
      qed
      with m show "live (ctx', w') q \<and> memory w' q = memory w q" by simp
    qed
    from wf' keep own show ?thesis by (simp add: mem)
  next
    assume s: "call_buffer c ctx = redo_buffer ctx" "redo_buffer ctx' = buf"
      "undo_buffer ctx' = undo_buffer ctx"
    note n' = n[unfolded s(1)]
    from d have d2: "distinct (pool_free w @ flush_queue w @ owned_ids (redo_buffer ctx)
      @ owned_ids (undo_buffer ctx))" by auto
    note fresh = NewEntry_new_ptr[OF n' d2 nr]
    from fresh have f3: "?h \<notin> fst ` set (owned_entries (undo_buffer ctx))"
      using owned_entries_ids[of ?h "undo_buffer ctx"] by blast
    have wf': "wf_state (ctx', w')"
      using NewEntry_distinct(2)[OF n' d] NewEntry_nonempty[OF n' nr] nu pos
      by (simp add: wf_state_def s pool)
    have keep: "\<forall>q. live (ctx, w) q \<longrightarrow> live (ctx', w') q \<and> memory w' q = memory w q"
    proof (intro allI impI)
      fix q
      assume l: "live (ctx, w) q"
      with fresh f3 have "q \<noteq> ?h" unfolding live_def fst_conv snd_conv by blast
      then have m: "memory w' q = memory w q" by (simp add: mem)
      from l have "(fst q \<in> set (flush_queue w) \<or> q \<in> fst ` set (owned_entries (redo_buffer ctx)))
          \<or> q \<in> fst ` set (owned_entries (undo_buffer ctx))"
        unfolding live_def fst_conv snd_conv by blast
      then have "live (ctx', w') q"
      proof
        assume "fst q \<in> set (flush_queue w) \<or> q \<in> fst ` set (owned_entries (redo_buffer ctx))"
        from NewEntry_keeps_live[OF n' this] show ?thesis
          unfolding live_def fst_conv snd_conv s pool by blast
      next
        assume "q \<in> fst ` set (owned_entries (undo_buffer ctx))"
        then show ?thesis unfolding live_def fst_conv snd_conv s by blast
      qed
      with m show "live (ctx', w') q \<and> memory w' q = memory w q" by simp
    qed
    from wf' keep own show ?thesis by (simp add: mem)
  qed
qed

text \<open>What a staging call leaves alone, in any state.\<close>

lemma stage_grows:
  assumes st: "stage L c (ctx, w) = Inr (r, ctx', w')"
  shows "prefix (buffer_entries (undo_buffer ctx)) (buffer_entries (undo_buffer ctx'))
    \<and> prefix (buffer_entries (redo_buffer ctx)) (buffer_entries (redo_buffer ctx'))
    \<and> occupancy (undo_buffer ctx) \<le> occupancy (undo_buffer ctx')
    \<and> occupancy (redo_buffer ctx) \<le> occupancy (redo_buffer ctx')
    \<and> buf_has_sink (undo_buffer ctx') = buf_has_sink (undo_buffer ctx)
    \<and> start_time ctx' = start_time ctx \<and> txn_id ctx' = txn_id ctx"
proof -
  from stage_decomp[OF st] obtain buf w1 where
    n: "NewEntry L (call_size L c) (call_buffer c ctx) w = Inr (head_of L c r, buf, w1)"
    and side: "(call_buffer c ctx = undo_buffer ctx \<and> undo_buffer ctx' = buf
                \<and> redo_buffer ctx' = redo_buffer ctx)
            \<or> (call_buffer c ctx = redo_buffer ctx \<and> redo_buffer ctx' = buf
                \<and> undo_buffer ctx' = undo_buffer ctx)"
    and ts: "start_time ctx' = start_time ctx" "txn_id ctx' = txn_id ctx"
    by blast
  note e = NewEntry_entries[OF n] NewEntry_occupancy[OF n] NewEntry_buf[OF n]
  from side show ?thesis
  proof (elim disjE conjE)
    assume s: "call_buffer c ctx = undo_buffer ctx" "undo_buffer ctx' = buf"
      "redo_buffer ctx' = redo_buffer ctx"
    from e ts show ?thesis by (simp add: s)
  next
    assume s: "call_buffer c ctx = redo_buffer ctx" "redo_buffer ctx' = buf"
      "undo_buffer ctx' = undo_buffer ctx"
    from e ts show ?thesis by (simp add: s)
  qed
qed

lemma log_step:
  assumes wf: "wf_state (ctx, w)"
  shows "wf_state (ctx, log_persisted w)
    \<and> memory (log_persisted w) = memory w
    \<and> (\<forall>q. live (ctx, w) q \<and> fst q \<notin> set (take 1 (flush_queue w))
          \<longrightarrow> live (ctx, log_persisted w) q)"
proof (cases "flush_queue w")
  case Nil
  then show ?thesis using wf by (simp add: log_persisted_def)
next
  case (Cons sid rest)
  then have lp: "log_persisted w = w\<lparr>flush_queue := rest, pool_free := pool_free w @ [sid]\<rparr>"
    by (simp add: log_persisted_def release_def)
  from wf have "wf_state (ctx, log_persisted w)"
    unfolding wf_state_def fst_conv snd_conv lp by (auto simp: Cons)
  moreover have "memory (log_persisted w) = memory w" by (simp add: lp)
  moreover have "\<forall>q. live (ctx, w) q \<and> fst q \<notin> set (take 1 (flush_queue w))
          \<longrightarrow> live (ctx, log_persisted w) q"
    unfolding live_def fst_conv snd_conv lp by (auto simp: Cons)
  ultimately show ?thesis by blast
qed

lemma sizes_positive_Cons:
  "sizes_positive L (e # evs) \<Longrightarrow> sizes_positive L evs"
  "sizes_positive L (Staging c # evs) \<Longrightarrow> 0 < unat (call_size L c)"
  by (simp_all add: sizes_positive_def)

lemma run_Staging:
  assumes "run L (Staging c # evs) s = Inr (hs, released, s')"
  obtains r ctx1 w1 hs1 where "stage L c (fst s, snd s) = Inr (r, ctx1, w1)"
    and "run L evs (ctx1, w1) = Inr (hs1, released, s')" and "hs = (c, r) # hs1"
  using assms by (auto split: sum.splits prod.splits)

lemma run_LogPersisted:
  assumes "run L (LogPersisted # evs) s = Inr (hs, released, s')"
  obtains rel1 where "run L evs (fst s, log_persisted (snd s)) = Inr (hs, rel1, s')"
    and "released = take 1 (flush_queue (snd s)) @ rel1"
  using assms by (auto split: sum.splits prod.splits)

lemma run_keeps:
  assumes "wf_state s" and "sizes_positive L evs" and "run L evs s = Inr (hs, released, s')"
  shows "wf_state s'
    \<and> (\<forall>q. live s q \<and> fst q \<notin> set released
          \<longrightarrow> live s' q \<and> memory (snd s') q = memory (snd s) q)"
  using assms
proof (induction evs arbitrary: s hs released)
  case Nil
  then show ?case by simp
next
  case (Cons e evs)
  note pos = sizes_positive_Cons(1)[OF Cons.prems(2)]
  show ?case
  proof (cases e)
    case (Staging c)
    from Cons.prems(3)[unfolded Staging] obtain r ctx1 w1 hs1 where
      st: "stage L c (fst s, snd s) = Inr (r, ctx1, w1)"
      and rest: "run L evs (ctx1, w1) = Inr (hs1, released, s')"
      by (rule run_Staging)
    from Cons.prems(1) have wf: "wf_state (fst s, snd s)" by simp
    from Cons.prems(2) have "0 < unat (call_size L c)"
      unfolding Staging by (rule sizes_positive_Cons(2))
    note step = stage_step[OF wf this st]
    from step have wf1: "wf_state (ctx1, w1)" by blast
    note ih = Cons.IH[OF wf1 pos rest, unfolded snd_conv]
    have "\<forall>q. live s q \<and> fst q \<notin> set released
          \<longrightarrow> live s' q \<and> memory (snd s') q = memory (snd s) q"
    proof (intro allI impI)
      fix q
      assume a: "live s q \<and> fst q \<notin> set released"
      then have "live (fst s, snd s) q" by simp
      with step have b: "live (ctx1, w1) q" "memory w1 q = memory (snd s) q" by blast+
      from ih a b(1) have "live s' q \<and> memory (snd s') q = memory w1 q" by blast
      with b(2) show "live s' q \<and> memory (snd s') q = memory (snd s) q" by simp
    qed
    with ih show ?thesis by blast
  next
    case LogPersisted
    from Cons.prems(3)[unfolded LogPersisted] obtain rel1 where
      rest: "run L evs (fst s, log_persisted (snd s)) = Inr (hs, rel1, s')"
      and rel: "released = take 1 (flush_queue (snd s)) @ rel1"
      by (rule run_LogPersisted)
    from Cons.prems(1) have wf: "wf_state (fst s, snd s)" by simp
    note step = log_step[OF wf]
    from step have wf1: "wf_state (fst s, log_persisted (snd s))" by blast
    note ih = Cons.IH[OF wf1 pos rest, unfolded snd_conv]
    have "\<forall>q. live s q \<and> fst q \<notin> set released
          \<longrightarrow> live s' q \<and> memory (snd s') q = memory (snd s) q"
    proof (intro allI impI)
      fix q
      assume a: "live s q \<and> fst q \<notin> set released"
      then have "live (fst s, snd s) q" "fst q \<notin> set (take 1 (flush_queue (snd s)))"
        "fst q \<notin> set rel1"
        by (simp_all add: rel)
      with step have b: "live (fst s, log_persisted (snd s)) q" by blast
      with \<open>fst q \<notin> set rel1\<close> ih
      have "live s' q \<and> memory (snd s') q = memory (log_persisted (snd s)) q" by blast
      with step show "live s' q \<and> memory (snd s') q = memory (snd s) q" by simp
    qed
    with ih show ?thesis by blast
  qed
qed

lemma run_grows:
  assumes "run L evs s = Inr (hs, released, s')"
  shows "prefix (buffer_entries (undo_buffer (fst s))) (buffer_entries (undo_buffer (fst s')))
    \<and> prefix (buffer_entries (redo_buffer (fst s))) (buffer_entries (redo_buffer (fst s')))
    \<and> occupancy (undo_buffer (fst s)) \<le> occupancy (undo_buffer (fst s'))
    \<and> occupancy (redo_buffer (fst s)) \<le> occupancy (redo_buffer (fst s'))
    \<and> buf_has_sink (undo_buffer (fst s')) = buf_has_sink (undo_buffer (fst s))
    \<and> StartTime (fst s') = StartTime (fst s) \<and> TxnId (fst s') = TxnId (fst s)"
  using assms
proof (induction evs arbitrary: s hs released)
  case Nil
  then show ?case by simp
next
  case (Cons e evs)
  show ?case
  proof (cases e)
    case (Staging c)
    from Cons.prems[unfolded Staging] obtain r ctx1 w1 hs1 where
      st: "stage L c (fst s, snd s) = Inr (r, ctx1, w1)"
      and rest: "run L evs (ctx1, w1) = Inr (hs1, released, s')"
      by (rule run_Staging)
    note g = stage_grows[OF st]
    note ih = Cons.IH[OF rest, unfolded fst_conv]
    from g ih have "prefix (buffer_entries (undo_buffer (fst s))) (buffer_entries (undo_buffer (fst s')))"
      by (blast intro: prefix_order.order_trans)
    moreover from g ih
    have "prefix (buffer_entries (redo_buffer (fst s))) (buffer_entries (redo_buffer (fst s')))"
      by (blast intro: prefix_order.order_trans)
    moreover from g ih have "occupancy (undo_buffer (fst s)) \<le> occupancy (undo_buffer (fst s'))"
      by (blast intro: le_trans)
    moreover from g ih have "occupancy (redo_buffer (fst s)) \<le> occupancy (redo_buffer (fst s'))"
      by (blast intro: le_trans)
    moreover from g ih have "buf_has_sink (undo_buffer (fst s')) = buf_has_sink (undo_buffer (fst s))"
      by simp
    moreover from g ih have "StartTime (fst s') = StartTime (fst s) \<and> TxnId (fst s') = TxnId (fst s)"
      by (simp add: StartTime_def TxnId_def)
    ultimately show ?thesis by blast
  next
    case LogPersisted
    from Cons.prems[unfolded LogPersisted] obtain rel1 where
      rest: "run L evs (fst s, log_persisted (snd s)) = Inr (hs, rel1, s')"
      by (rule run_LogPersisted)
    from Cons.IH[OF rest] show ?thesis by simp
  qed
qed

lemma run_undo_not_released:
  assumes "wf_state s" and "\<not> buf_has_sink (undo_buffer (fst s))"
    and "sizes_positive L evs" and "run L evs s = Inr (hs, released, s')"
    and "q \<in> fst ` set (owned_entries (undo_buffer (fst s)))"
  shows "fst q \<notin> set released"
  using assms
proof (induction evs arbitrary: s hs released)
  case Nil
  then show ?case by simp
next
  case (Cons e evs)
  note pos = sizes_positive_Cons(1)[OF Cons.prems(3)]
  show ?case
  proof (cases e)
    case (Staging c)
    from Cons.prems(4)[unfolded Staging] obtain r ctx1 w1 hs1 where
      st: "stage L c (fst s, snd s) = Inr (r, ctx1, w1)"
      and rest: "run L evs (ctx1, w1) = Inr (hs1, released, s')"
      by (rule run_Staging)
    from Cons.prems(1) have wf: "wf_state (fst s, snd s)" by simp
    from Cons.prems(3) have "0 < unat (call_size L c)"
      unfolding Staging by (rule sizes_positive_Cons(2))
    from stage_step[OF wf this st] have wf1: "wf_state (ctx1, w1)" by blast
    note g = stage_grows[OF st]
    from g Cons.prems(2) have ns: "\<not> buf_has_sink (undo_buffer (fst (ctx1, w1)))" by simp
    from g have "prefix (buffer_entries (undo_buffer (fst s))) (buffer_entries (undo_buffer ctx1))"
      by blast
    then have "set (buffer_entries (undo_buffer (fst s))) \<subseteq> set (buffer_entries (undo_buffer ctx1))"
      by (rule set_mono_prefix)
    with Cons.prems(5) have "q \<in> fst ` set (owned_entries (undo_buffer (fst (ctx1, w1))))"
      using owned_entries_no_sink[OF Cons.prems(2)] owned_entries_no_sink[OF ns] by auto
    from Cons.IH[OF wf1 ns pos rest this] show ?thesis .
  next
    case LogPersisted
    from Cons.prems(4)[unfolded LogPersisted] obtain rel1 where
      rest: "run L evs (fst s, log_persisted (snd s)) = Inr (hs, rel1, s')"
      and rel: "released = take 1 (flush_queue (snd s)) @ rel1"
      by (rule run_LogPersisted)
    from Cons.prems(1) have wf: "wf_state (fst s, snd s)" by simp
    from log_step[OF wf] have wf1: "wf_state (fst s, log_persisted (snd s))" by blast
    from Cons.prems(5) have "fst q \<in> set (owned_ids (undo_buffer (fst s)))"
      by (rule owned_entries_ids)
    with Cons.prems(1) have "fst q \<notin> set (flush_queue (snd s))"
      unfolding wf_state_def by auto
    then have a: "fst q \<notin> set (take 1 (flush_queue (snd s)))"
      by (auto dest: in_set_takeD)
    from Cons.IH[OF wf1 _ pos rest] Cons.prems(2,5) have "fst q \<notin> set rel1" by simp
    with a show ?thesis by (simp add: rel)
  qed
qed


lemma NewEntry_too_large:
  "segment_capacity L < unat sz \<Longrightarrow> NewEntry L sz buf w = Inl PreconditionViolation"
  by (simp add: NewEntry_unfold)

lemma NewEntry_current:
  assumes "NewEntry L sz buf w = Inr (p, buf', w')"
  shows "unat sz \<le> segment_capacity L
       \<and> map_option seg_id (buf_current buf') = Some (fst p)
       \<and> map_option seg_used (buf_current buf') = Some (snd p + unat sz)
       \<and> map_option (last \<circ> segment_entries) (buf_current buf') = Some (p, unat sz)"
  using assms
  by (auto simp: NewEntry_unfold acquire_def reserve_def seg_used_def segment_entries_def
      entries_from_append
      split: if_splits option.splits sum.splits list.splits prod.splits)

lemma NewEntry_effect_violation:
  "NewEntry_effect L sz buf w = (Inl PreconditionViolation, buf', w') \<Longrightarrow>
     buf' = buf \<and> w' = w \<and> segment_capacity L < unat sz"
  by (auto simp: NewEntry_effect_def acquire_def
      split: if_splits option.splits sum.splits list.splits prod.splits)

lemma NewEntry_total:
  assumes "unat sz \<le> segment_capacity L"
  shows "(needs_segment L buf sz \<and> pool_free w = [] \<longrightarrow> NewEntry L sz buf w = Inl ResourceExhaustion)
       \<and> (\<not> (needs_segment L buf sz \<and> pool_free w = []) \<longrightarrow>
            (\<exists>p buf' w'. NewEntry L sz buf w = Inr (p, buf', w')
               \<and> (pool_free w = pool_free w' \<or> (\<exists>sid. pool_free w = sid # pool_free w'))))"
  using assms
  by (auto simp: NewEntry_unfold needs_segment_def acquire_def finalize_def reserve_def
      split: option.splits list.splits)

lemma stage_Inl:
  "NewEntry L (call_size L c) (call_buffer c ctx) w = Inl e \<Longrightarrow> stage L c (ctx, w) = Inl e"
  by (cases c) (simp_all add: UndoRecordForUpdate_def UndoRecordForInsert_def StageWrite_def)

lemma stage_Inr_pool:
  "NewEntry L (call_size L c) (call_buffer c ctx) w = Inr (p, buf, w1) \<Longrightarrow>
     \<exists>r ctx' w'. stage L c (ctx, w) = Inr (r, ctx', w') \<and> pool_free w' = pool_free w1"
  by (cases c)
    (simp_all add: UndoRecordForUpdate_def UndoRecordForInsert_def StageWrite_def
      UndoRecord_Initialize_row_def UndoRecord_Initialize_init_def RedoRecord_Initialize_def)

lemmas example_defs_simps =
  example_defs_def example_pool_def example_ctx_def example_row_def example_init_def
  example_undo_update_def example_undo_insert_def example_redo_def
  TransactionContext_new_def UndoBuffer_def RedoBuffer_def

lemmas staging_defs =
  UndoRecordForUpdate_def UndoRecordForInsert_def StageWrite_def NewEntry_unfold acquire_def
  reserve_def finalize_def has_room_def seg_used_def UndoRecord_Initialize_row_def
  UndoRecord_Initialize_init_def RedoRecord_Initialize_def GetUnderlyingRecordBodyAs_def

lemma example_step1:
  "UndoRecordForUpdate example_defs 11 2 example_row (example_ctx, example_pool)
     = Inr ((7, 0), example_state1)"
  by (simp add: staging_defs example_defs_simps example_state1_def)

lemma example_step2:
  "StageWrite example_defs 11 2 example_init example_state1 = Inr ((8, 8), example_state2)"
  by (simp add: staging_defs example_defs_simps example_state1_def example_state2_def)

lemma example_step3:
  "StageWrite example_defs 11 2 example_init example_state2 = Inr ((9, 8), example_state3)"
  by (simp add: staging_defs example_defs_simps example_state2_def example_state3_def)

lemma example_step4:
  "UndoRecordForInsert example_defs 11 4 example_init example_state3 = Inr ((10, 0), example_state4)"
  by (simp add: staging_defs example_defs_simps example_state3_def example_state4_def)

lemma example_wf: "wf_state (example_ctx, example_pool)"
  by (simp add: wf_state_def owned_ids_def owned_segments_def entries_nonempty_def
      example_defs_simps)

lemmas buffer_defs =
  buffer_entries_def buffer_segments_def segment_entries_def occupancy_def seg_used_def

lemma example_exhausted_update:
  "NewEntry example_defs (UndoRecord_Size_row example_defs example_row) (undo_buffer example_ctx)
     example_exhausted = Inl ResourceExhaustion"
  by (simp add: NewEntry_unfold acquire_def example_exhausted_def example_defs_simps)

lemma example_exhausted_insert:
  "NewEntry example_defs (UndoRecord_Size_init example_defs example_init)
     (undo_buffer (fst example_state4)) (snd example_state4) = Inl ResourceExhaustion"
  by (simp add: NewEntry_unfold acquire_def finalize_def has_room_def seg_used_def
      example_state4_def example_defs_simps)

lemma example_exhausted_write:
  "NewEntry example_defs (RedoRecord_Size example_defs example_init)
     (redo_buffer (fst example_state4)) (snd example_state4) = Inl ResourceExhaustion"
  by (simp add: NewEntry_unfold acquire_def finalize_def has_room_def seg_used_def
      example_state4_def example_defs_simps)

lemma example_sizes:
  "unat (UndoRecord_Size_row example_defs example_row) = 40"
  "unat (UndoRecord_Size_init example_defs example_init) = 48"
  "unat (RedoRecord_Size example_defs example_init) = 40"
  "unat (UndoRecord_Size_row example_defs example_wide_row) = 72"
  "segment_capacity example_defs = 64"
  "LogRecord_body_offset example_defs = 8"
  by (simp_all add: example_defs_simps example_wide_row_def)

lemma example_entries:
  "buffer_entries (undo_buffer example_ctx) = []"
  "buffer_entries (undo_buffer (fst example_state1)) = [((7, 0), 40)]"
  "buffer_entries (redo_buffer (fst example_state1)) = []"
  "buffer_entries (undo_buffer (fst example_state2)) = [((7, 0), 40)]"
  "buffer_entries (redo_buffer (fst example_state2)) = [((8, 0), 40)]"
  "buffer_entries (undo_buffer (fst example_state3)) = [((7, 0), 40)]"
  "buffer_entries (redo_buffer (fst example_state3)) = [((8, 0), 40), ((9, 0), 40)]"
  "buffer_entries (undo_buffer (fst example_state4)) = [((7, 0), 40), ((10, 0), 48)]"
  "buffer_entries (redo_buffer (fst example_state4)) = [((8, 0), 40), ((9, 0), 40)]"
  by (simp_all add: buffer_defs example_defs_simps example_state1_def example_state2_def
      example_state3_def example_state4_def)

lemma example_occupancy:
  "occupancy (undo_buffer example_ctx) = 0"
  "occupancy (redo_buffer example_ctx) = 0"
  "occupancy (undo_buffer (fst example_state1)) = 40"
  "occupancy (redo_buffer (fst example_state1)) = 0"
  "occupancy (undo_buffer (fst example_state2)) = 40"
  "occupancy (redo_buffer (fst example_state2)) = 40"
  "occupancy (undo_buffer (fst example_state3)) = 40"
  "occupancy (undo_buffer (fst example_state4)) = 88"
  "occupancy (redo_buffer (fst example_state4)) = 80"
  by (simp_all add: buffer_defs example_defs_simps example_state1_def example_state2_def
      example_state3_def example_state4_def)

lemma example_queue:
  "flush_queue (snd example_state4) = [8]"
  by (simp add: example_state4_def)

lemma example_step5:
  "UndoRecordForUpdate example_defs 11 6 example_row
     (fst example_state4, log_persisted (snd example_state4)) = Inr ((8, 0), example_state5)"
  by (simp add: staging_defs example_defs_simps example_state4_def example_state5_def
      log_persisted_def release_def example_undo_recycled_def fun_upd_twist)

lemma example_run_quiet:
  "run example_defs example_quiet example_state2
     = Inr ([(CallStageWrite 11 2 example_init, (9, 8)),
             (CallUndoRecordForInsert 11 4 example_init, (10, 0))], [], example_state4)"
  by (simp add: example_quiet_def example_step3 example_step4)

lemma example_run_recycling:
  "run example_defs example_recycling example_state2
     = Inr ([(CallStageWrite 11 2 example_init, (9, 8)),
             (CallUndoRecordForInsert 11 4 example_init, (10, 0)),
             (CallUndoRecordForUpdate 11 6 example_row, (8, 0))], [8], example_state5)"
  by (simp add: example_recycling_def example_step3 example_step4 example_step5 example_queue)

lemma example_wf1: "wf_state example_state1"
  by (simp add: wf_state_def owned_ids_def owned_segments_def entries_nonempty_def
      example_state1_def)

lemma example_positive:
  "sizes_positive example_defs example_quiet"
  "sizes_positive example_defs (Staging (CallStageWrite 11 2 example_init) # example_recycling)"
  by (auto simp: sizes_positive_def example_quiet_def example_recycling_def example_sizes)

text \<open>The constructor's state is well formed when the pool's free blocks are distinct and
  the log subsystem holds no segment.\<close>

lemma wf_state_new:
  "distinct (pool_free w) \<Longrightarrow> flush_queue w = [] \<Longrightarrow>
     wf_state (TransactionContext_new start tid log_manager, w)
     \<and> \<not> buf_has_sink (undo_buffer (TransactionContext_new start tid log_manager))"
  by (simp add: wf_state_def owned_ids_def owned_segments_def entries_nonempty_def
      TransactionContext_new_def UndoBuffer_def RedoBuffer_def)

text \<open>
  No staging operation writes the start time or the transaction identifier, and the log
  subsystem does not reach them: through any run \<open>StartTime\<close> and \<open>TxnId\<close> return what they
  returned before it.
\<close>

lemma run_timestamps:
  "run L evs (ctx, w) = Inr (hs, released, ctx', w') \<Longrightarrow>
     StartTime ctx' = StartTime ctx \<and> TxnId ctx' = TxnId ctx"
  using run_grows[of L evs "(ctx, w)" hs released "(ctx', w')"] by simp

section \<open>The staging operations\<close>

text \<open>
  Claim C3 as stated, for every returned record pointer until the context is destroyed,
  does not hold for redo records. \<open>StageWrite\<close> returns the handle (8, 8) to a redo record
  in segment 8. A second \<open>StageWrite\<close> finds no room, so segment 8 goes to the log
  subsystem; the log subsystem persists it and returns it to the pool; and a later
  \<open>UndoRecordForUpdate\<close> on the same context draws segment 8 from the pool and writes its
  undo record where the log record was. The handle (8, 8) no longer points to a redo record.
\<close>

theorem later_staging_overwrites_recycled_redo_record:
  "StageWrite example_defs 11 2 example_init example_state1 = Inr ((8, 8), example_state2)
   \<and> RedoRecord_at example_defs (snd example_state2) (8, 8) = Some example_redo
   \<and> run example_defs example_recycling example_state2
       = Inr ([(CallStageWrite 11 2 example_init, (9, 8)),
               (CallUndoRecordForInsert 11 4 example_init, (10, 0)),
               (CallUndoRecordForUpdate 11 6 example_row, (8, 0))], [8], example_state5)
   \<and> RedoRecord_at example_defs (snd example_state5) (8, 8) = None
   \<and> memory (snd example_state2) (8, 0) = Some (LogObj example_redo)
   \<and> memory (snd example_state5) (8, 0) = Some example_undo_recycled"
proof -
  have "RedoRecord_at example_defs (snd example_state2) (8, 8) = Some example_redo"
    "RedoRecord_at example_defs (snd example_state5) (8, 8) = None"
    "memory (snd example_state2) (8, 0) = Some (LogObj example_redo)"
    "memory (snd example_state5) (8, 0) = Some example_undo_recycled"
    by (simp_all add: RedoRecord_at_def example_sizes example_state2_def example_state5_def
        example_undo_recycled_def)
  then show ?thesis
    by (simp add: example_step2 example_run_recycling)
qed

text \<open>
  Claim C3, amended. Take a staging call in a well-formed state, on a context whose undo
  buffer has no sink, and any run after it of further staging calls on the context and of
  segments persisted by the log subsystem, all records being of positive size. The occupancy
  of the undo buffer and of the redo buffer never decreases, and the entries a buffer has
  written stay the first entries of its scan, at the same positions and with the same sizes:
  nothing is freed or relocated by the buffer. The record behind the returned handle is
  present after the call. An undo record is left exactly as it was by everything that
  follows; a redo record is left exactly as it was as long as its segment is not among those
  the log subsystem has returned to the pool. The last state is well formed again, so this
  holds for every call of a sequence.
\<close>

theorem staged_records_stay_until_recycled:
  assumes "wf_state (ctx, w)" and "\<not> buf_has_sink (undo_buffer ctx)"
    and "0 < unat (call_size L c)" and "sizes_positive L later"
    and "stage L c (ctx, w) = Inr (r, ctx1, w1)"
    and "run L later (ctx1, w1) = Inr (hs, released, ctx2, w2)"
  shows "occupancy (undo_buffer ctx) \<le> occupancy (undo_buffer ctx1)
       \<and> occupancy (undo_buffer ctx1) \<le> occupancy (undo_buffer ctx2)
       \<and> occupancy (redo_buffer ctx) \<le> occupancy (redo_buffer ctx1)
       \<and> occupancy (redo_buffer ctx1) \<le> occupancy (redo_buffer ctx2)
       \<and> prefix (buffer_entries (undo_buffer ctx)) (buffer_entries (undo_buffer ctx1))
       \<and> prefix (buffer_entries (undo_buffer ctx1)) (buffer_entries (undo_buffer ctx2))
       \<and> prefix (buffer_entries (redo_buffer ctx)) (buffer_entries (redo_buffer ctx1))
       \<and> prefix (buffer_entries (redo_buffer ctx1)) (buffer_entries (redo_buffer ctx2))
       \<and> memory w1 (head_of L c r) \<noteq> None
       \<and> (on_undo_buffer c \<or> fst (head_of L c r) \<notin> set released
            \<longrightarrow> memory w2 (head_of L c r) = memory w1 (head_of L c r))
       \<and> wf_state (ctx2, w2) \<and> \<not> buf_has_sink (undo_buffer ctx2)"
proof -
  let ?h = "head_of L c r"
  note step = stage_step[OF assms(1,3,5)]
  note g1 = stage_grows[OF assms(5)]
  note g2 = run_grows[OF assms(6), unfolded fst_conv]
  from step have wf1: "wf_state (ctx1, w1)"
    and own: "?h \<in> fst ` set (owned_entries (call_buffer c ctx1))"
    and m1: "memory w1 ?h \<noteq> None" by blast+
  from g1 assms(2) have ns1: "\<not> buf_has_sink (undo_buffer (fst (ctx1, w1)))" by simp
  note k = run_keeps[OF wf1 assms(4,6), unfolded fst_conv snd_conv]
  have lv: "live (ctx1, w1) ?h"
    using own unfolding live_def fst_conv by (cases c) auto
  have keep: "memory w2 ?h = memory w1 ?h" if "on_undo_buffer c \<or> fst ?h \<notin> set released"
  proof -
    have "fst ?h \<notin> set released"
    proof (cases "fst ?h \<in> set released")
      case False
      then show ?thesis .
    next
      case True
      with that have u: "on_undo_buffer c" by blast
      then have "call_buffer c ctx1 = undo_buffer ctx1" by (cases c) auto
      with own have "?h \<in> fst ` set (owned_entries (undo_buffer (fst (ctx1, w1))))" by simp
      from run_undo_not_released[OF wf1 ns1 assms(4,6) this] show ?thesis .
    qed
    with lv k show ?thesis by blast
  qed
  from g2 ns1 have ns2: "\<not> buf_has_sink (undo_buffer ctx2)" by simp
  from k have wf2: "wf_state (ctx2, w2)" by blast
  from g1 g2 m1 keep wf2 ns2 show ?thesis by simp
qed

theorem staged_records_stay_until_recycled_witness:
  "wf_state (example_ctx, example_pool) \<and> \<not> buf_has_sink (undo_buffer example_ctx)
   \<and> 0 < unat (call_size example_defs (CallUndoRecordForUpdate 11 2 example_row))
   \<and> sizes_positive example_defs (Staging (CallStageWrite 11 2 example_init) # example_recycling)
   \<and> stage example_defs (CallUndoRecordForUpdate 11 2 example_row) (example_ctx, example_pool)
       = Inr ((7, 0), example_state1)
   \<and> run example_defs (Staging (CallStageWrite 11 2 example_init) # example_recycling)
         example_state1
       = Inr ([(CallStageWrite 11 2 example_init, (8, 8)),
               (CallStageWrite 11 2 example_init, (9, 8)),
               (CallUndoRecordForInsert 11 4 example_init, (10, 0)),
               (CallUndoRecordForUpdate 11 6 example_row, (8, 0))], [8], example_state5)
   \<and> occupancy (undo_buffer example_ctx) = 0
   \<and> occupancy (undo_buffer (fst example_state1)) = 40
   \<and> occupancy (undo_buffer (fst example_state5)) = 128
   \<and> occupancy (redo_buffer (fst example_state1)) = 0
   \<and> occupancy (redo_buffer (fst example_state5)) = 80
   \<and> prefix [((7, 0), 40)] (buffer_entries (undo_buffer (fst example_state5)))
   \<and> memory (snd example_state1) (7, 0) = Some example_undo_update
   \<and> memory (snd example_state5) (7, 0) = Some example_undo_update
   \<and> wf_state example_state5
   \<and> wf_state example_state1
   \<and> sizes_positive example_defs example_quiet
   \<and> stage example_defs (CallStageWrite 11 2 example_init) example_state1
       = Inr ((8, 8), example_state2)
   \<and> run example_defs example_quiet example_state2
       = Inr ([(CallStageWrite 11 2 example_init, (9, 8)),
               (CallUndoRecordForInsert 11 4 example_init, (10, 0))], [], example_state4)
   \<and> memory (snd example_state2) (8, 0) = Some (LogObj example_redo)
   \<and> memory (snd example_state4) (8, 0) = Some (LogObj example_redo)"
proof -
  let ?u = "CallUndoRecordForUpdate 11 2 example_row"
  let ?wr = "CallStageWrite 11 2 example_init"
  have ns: "\<not> buf_has_sink (undo_buffer example_ctx)"
    "\<not> buf_has_sink (undo_buffer (fst example_state1))"
    by (simp_all add: example_defs_simps example_state1_def)
  have pu: "0 < unat (call_size example_defs ?u)" "0 < unat (call_size example_defs ?wr)"
    by (simp_all add: example_sizes)
  have s1: "stage example_defs ?u (example_ctx, example_pool)
      = Inr ((7, 0), fst example_state1, snd example_state1)"
    by (simp add: example_step1)
  have r1: "run example_defs (Staging ?wr # example_recycling) (fst example_state1, snd example_state1)
       = Inr ([(?wr, (8, 8)), (?wr, (9, 8)),
               (CallUndoRecordForInsert 11 4 example_init, (10, 0)),
               (CallUndoRecordForUpdate 11 6 example_row, (8, 0))], [8],
              fst example_state5, snd example_state5)"
    by (simp add: example_step2 example_run_recycling)
  have s2: "stage example_defs ?wr (fst example_state1, snd example_state1)
      = Inr ((8, 8), fst example_state2, snd example_state2)"
    by (simp add: example_step2)
  have r2: "run example_defs example_quiet (fst example_state2, snd example_state2)
       = Inr ([(?wr, (9, 8)), (CallUndoRecordForInsert 11 4 example_init, (10, 0))], [],
              fst example_state4, snd example_state4)"
    by (simp add: example_run_quiet)
  have wf1: "wf_state (fst example_state1, snd example_state1)"
    using example_wf1 by simp
  note t1 = staged_records_stay_until_recycled[OF example_wf ns(1) pu(1) example_positive(2) s1 r1]
  note t2 = staged_records_stay_until_recycled[OF wf1 ns(2) pu(2) example_positive(1) s2 r2]
  have m: "memory (snd example_state1) (7, 0) = Some example_undo_update"
    "memory (snd example_state2) (8, 0) = Some (LogObj example_redo)"
    by (simp_all add: example_state1_def example_state2_def)
  have o: "occupancy (undo_buffer (fst example_state5)) = 128"
    "occupancy (redo_buffer (fst example_state5)) = 80"
    "buffer_entries (undo_buffer (fst example_state5)) = [((7, 0), 40), ((10, 0), 48), ((8, 0), 40)]"
    by (simp_all add: buffer_defs example_state5_def)
  from t1 have a: "memory (snd example_state5) (7, 0) = Some example_undo_update"
    "wf_state example_state5"
    by (simp_all add: m)
  from t2 have b: "memory (snd example_state4) (8, 0) = Some (LogObj example_redo)"
    by (simp add: m example_sizes)
  from a b m o ns pu example_wf example_wf1 example_positive show ?thesis
    unfolding example_occupancy
    by (simp add: example_step1 example_step2 example_run_recycling example_run_quiet)
qed

text \<open>
  Claim C4. When \<open>UndoRecordForUpdate\<close> or \<open>UndoRecordForInsert\<close> returns a record, the
  record at the returned pointer carries the value \<open>TxnId\<close> had when the call was made, with
  the given slot and table, and the entry reserved for it in the undo buffer has exactly the
  size \<open>UndoRecord::Size\<close> gives for the new-values row, respectively for the initializer.
\<close>

theorem undo_record_stamped_with_txn_id:
  "(UndoRecordForUpdate L table slot redo (ctx, w) = Inr (r, ctx', w') \<longrightarrow>
      memory w' r = Some (UndoObj
        \<lparr>ur_timestamp = TxnId ctx, ur_slot = slot, ur_table = table, ur_next = None,
         ur_delta = \<lparr>pr_col_ids = pr_col_ids redo, pr_values = []\<rparr>\<rparr>)
      \<and> buffer_entries (undo_buffer ctx') =
          buffer_entries (undo_buffer ctx) @ [(r, unat (UndoRecord_Size_row L redo))])
   \<and> (UndoRecordForInsert L table slot ini (ctx, w) = Inr (r, ctx', w') \<longrightarrow>
      memory w' r = Some (UndoObj
        \<lparr>ur_timestamp = TxnId ctx, ur_slot = slot, ur_table = table, ur_next = None,
         ur_delta = \<lparr>pr_col_ids = pri_col_ids ini, pr_values = []\<rparr>\<rparr>)
      \<and> buffer_entries (undo_buffer ctx') =
          buffer_entries (undo_buffer ctx) @ [(r, unat (UndoRecord_Size_init L ini))])"
proof (intro conjI impI)
  assume a: "UndoRecordForUpdate L table slot redo (ctx, w) = Inr (r, ctx', w')"
  from UndoRecordForUpdate_Inr[OF a] obtain buf w1 where
    n: "NewEntry L (UndoRecord_Size_row L redo) (undo_buffer ctx) w = Inr (r, buf, w1)"
    and c: "ctx' = ctx\<lparr>undo_buffer := buf\<rparr>"
    and m: "w' = w1\<lparr>memory := (memory w1)(r \<mapsto> UndoObj
                \<lparr>ur_timestamp = txn_id ctx, ur_slot = slot, ur_table = table, ur_next = None,
                 ur_delta = \<lparr>pr_col_ids = pr_col_ids redo, pr_values = []\<rparr>\<rparr>)\<rparr>"
    by blast
  show "memory w' r = Some (UndoObj
        \<lparr>ur_timestamp = TxnId ctx, ur_slot = slot, ur_table = table, ur_next = None,
         ur_delta = \<lparr>pr_col_ids = pr_col_ids redo, pr_values = []\<rparr>\<rparr>)"
    by (simp add: m TxnId_def)
  show "buffer_entries (undo_buffer ctx') =
          buffer_entries (undo_buffer ctx) @ [(r, unat (UndoRecord_Size_row L redo))]"
    using NewEntry_entries[OF n] by (simp add: c)
next
  assume a: "UndoRecordForInsert L table slot ini (ctx, w) = Inr (r, ctx', w')"
  from UndoRecordForInsert_Inr[OF a] obtain buf w1 where
    n: "NewEntry L (UndoRecord_Size_init L ini) (undo_buffer ctx) w = Inr (r, buf, w1)"
    and c: "ctx' = ctx\<lparr>undo_buffer := buf\<rparr>"
    and m: "w' = w1\<lparr>memory := (memory w1)(r \<mapsto> UndoObj
                \<lparr>ur_timestamp = txn_id ctx, ur_slot = slot, ur_table = table, ur_next = None,
                 ur_delta = \<lparr>pr_col_ids = pri_col_ids ini, pr_values = []\<rparr>\<rparr>)\<rparr>"
    by blast
  show "memory w' r = Some (UndoObj
        \<lparr>ur_timestamp = TxnId ctx, ur_slot = slot, ur_table = table, ur_next = None,
         ur_delta = \<lparr>pr_col_ids = pri_col_ids ini, pr_values = []\<rparr>\<rparr>)"
    by (simp add: m TxnId_def)
  show "buffer_entries (undo_buffer ctx') =
          buffer_entries (undo_buffer ctx) @ [(r, unat (UndoRecord_Size_init L ini))]"
    using NewEntry_entries[OF n] by (simp add: c)
qed

theorem undo_record_stamped_with_txn_id_witness:
  "UndoRecordForUpdate example_defs 11 2 example_row (example_ctx, example_pool)
     = Inr ((7, 0), example_state1)
   \<and> TxnId example_ctx = 1000
   \<and> memory (snd example_state1) (7, 0) = Some (UndoObj
        \<lparr>ur_timestamp = 1000, ur_slot = 2, ur_table = 11, ur_next = None,
         ur_delta = \<lparr>pr_col_ids = [3], pr_values = []\<rparr>\<rparr>)
   \<and> buffer_entries (undo_buffer (fst example_state1)) = [((7, 0), 40)]
   \<and> UndoRecordForInsert example_defs 11 4 example_init example_state3
     = Inr ((10, 0), example_state4)
   \<and> TxnId (fst example_state3) = 1000
   \<and> memory (snd example_state4) (10, 0) = Some (UndoObj
        \<lparr>ur_timestamp = 1000, ur_slot = 4, ur_table = 11, ur_next = None,
         ur_delta = \<lparr>pr_col_ids = [3, 4], pr_values = []\<rparr>\<rparr>)
   \<and> buffer_entries (undo_buffer (fst example_state4)) = [((7, 0), 40), ((10, 0), 48)]"
proof -
  have a: "UndoRecordForUpdate example_defs 11 2 example_row (example_ctx, example_pool)
     = Inr ((7, 0), fst example_state1, snd example_state1)"
    by (simp add: example_step1)
  have b: "UndoRecordForInsert example_defs 11 4 example_init (fst example_state3, snd example_state3)
     = Inr ((10, 0), fst example_state4, snd example_state4)"
    by (simp add: example_step4)
  note t1 = undo_record_stamped_with_txn_id[where L = example_defs and table = 11 and slot = 2
      and redo = example_row and ctx = example_ctx and w = example_pool and r = "(7, 0)"
      and ctx' = "fst example_state1" and w' = "snd example_state1" and ini = example_init,
      THEN conjunct1, THEN mp, OF a]
  note t2 = undo_record_stamped_with_txn_id[where L = example_defs and table = 11 and slot = 4
      and redo = example_row and ctx = "fst example_state3" and w = "snd example_state3"
      and r = "(10, 0)" and ctx' = "fst example_state4" and w' = "snd example_state4"
      and ini = example_init, THEN conjunct2, THEN mp, OF b]
  have c: "TxnId example_ctx = 1000" "TxnId (fst example_state3) = 1000"
    by (simp_all add: TxnId_def example_defs_simps example_state3_def)
  have d: "buffer_entries (undo_buffer example_ctx) = []"
    "buffer_entries (undo_buffer (fst example_state3)) = [((7, 0), 40)]"
    by (simp_all add: buffer_defs example_defs_simps example_state3_def)
  have e: "unat (UndoRecord_Size_row example_defs example_row) = 40"
    "unat (UndoRecord_Size_init example_defs example_init) = 48"
    by (simp_all add: example_defs_simps)
  have f: "pr_col_ids example_row = [3]" "pri_col_ids example_init = [3, 4]"
    by (simp_all add: example_row_def example_init_def)
  from t1 t2 show ?thesis
    unfolding c d e f by (simp add: example_step1 example_step4)
qed



text \<open>
  Claim C6. Each staging operation that succeeds has added exactly one entry to its buffer,
  of exactly the size the record type's \<open>Size\<close> gives for the arguments and lying inside one
  segment; the buffer's occupancy has grown by that size; and the only change to the memory
  is the record that \<open>Initialize\<close> wrote at the head of that entry. The size depends on the
  arguments alone, and when the reservation fails the operation fails with that error and
  nothing is initialized.
\<close>

theorem staging_reserves_exact_size_once:
  "(UndoRecordForUpdate L table slot redo (ctx, w) = Inr (r, ctx', w') \<longrightarrow>
      buffer_entries (undo_buffer ctx') =
        buffer_entries (undo_buffer ctx) @ [(r, unat (UndoRecord_Size_row L redo))]
      \<and> occupancy (undo_buffer ctx') =
          occupancy (undo_buffer ctx) + unat (UndoRecord_Size_row L redo)
      \<and> snd r + unat (UndoRecord_Size_row L redo) \<le> segment_capacity L
      \<and> memory w' = (memory w)(r \<mapsto> UndoObj
          \<lparr>ur_timestamp = txn_id ctx, ur_slot = slot, ur_table = table, ur_next = None,
           ur_delta = \<lparr>pr_col_ids = pr_col_ids redo, pr_values = []\<rparr>\<rparr>))
   \<and> (UndoRecordForInsert L table slot ini (ctx, w) = Inr (r, ctx', w') \<longrightarrow>
      buffer_entries (undo_buffer ctx') =
        buffer_entries (undo_buffer ctx) @ [(r, unat (UndoRecord_Size_init L ini))]
      \<and> occupancy (undo_buffer ctx') =
          occupancy (undo_buffer ctx) + unat (UndoRecord_Size_init L ini)
      \<and> snd r + unat (UndoRecord_Size_init L ini) \<le> segment_capacity L
      \<and> memory w' = (memory w)(r \<mapsto> UndoObj
          \<lparr>ur_timestamp = txn_id ctx, ur_slot = slot, ur_table = table, ur_next = None,
           ur_delta = \<lparr>pr_col_ids = pri_col_ids ini, pr_values = []\<rparr>\<rparr>))
   \<and> (StageWrite L table slot ini (ctx, w) = Inr (r, ctx', w') \<longrightarrow>
      buffer_entries (redo_buffer ctx') =
        buffer_entries (redo_buffer ctx)
          @ [((fst r, snd r - LogRecord_body_offset L), unat (RedoRecord_Size L ini))]
      \<and> occupancy (redo_buffer ctx') =
          occupancy (redo_buffer ctx) + unat (RedoRecord_Size L ini)
      \<and> snd r - LogRecord_body_offset L + unat (RedoRecord_Size L ini) \<le> segment_capacity L
      \<and> memory w' = (memory w)((fst r, snd r - LogRecord_body_offset L) \<mapsto> LogObj
          \<lparr>rr_timestamp = start_time ctx, rr_table = table, rr_slot = slot,
           rr_delta = \<lparr>pr_col_ids = pri_col_ids ini, pr_values = []\<rparr>\<rparr>))
   \<and> (\<forall>e. NewEntry L (UndoRecord_Size_row L redo) (undo_buffer ctx) w = Inl e \<longrightarrow>
          UndoRecordForUpdate L table slot redo (ctx, w) = Inl e)
   \<and> (\<forall>e. NewEntry L (UndoRecord_Size_init L ini) (undo_buffer ctx) w = Inl e \<longrightarrow>
          UndoRecordForInsert L table slot ini (ctx, w) = Inl e)
   \<and> (\<forall>e. NewEntry L (RedoRecord_Size L ini) (redo_buffer ctx) w = Inl e \<longrightarrow>
          StageWrite L table slot ini (ctx, w) = Inl e)"
proof (intro conjI impI allI)
  assume a: "UndoRecordForUpdate L table slot redo (ctx, w) = Inr (r, ctx', w')"
  from UndoRecordForUpdate_Inr[OF a] obtain buf w1 where
    n: "NewEntry L (UndoRecord_Size_row L redo) (undo_buffer ctx) w = Inr (r, buf, w1)"
    and c: "ctx' = ctx\<lparr>undo_buffer := buf\<rparr>"
    and m: "w' = w1\<lparr>memory := (memory w1)(r \<mapsto> UndoObj
                \<lparr>ur_timestamp = txn_id ctx, ur_slot = slot, ur_table = table, ur_next = None,
                 ur_delta = \<lparr>pr_col_ids = pr_col_ids redo, pr_values = []\<rparr>\<rparr>)\<rparr>"
    by blast
  show "buffer_entries (undo_buffer ctx') =
        buffer_entries (undo_buffer ctx) @ [(r, unat (UndoRecord_Size_row L redo))]"
    using NewEntry_entries[OF n] by (simp add: c)
  show "occupancy (undo_buffer ctx') =
          occupancy (undo_buffer ctx) + unat (UndoRecord_Size_row L redo)"
    using NewEntry_occupancy[OF n] by (simp add: c)
  show "snd r + unat (UndoRecord_Size_row L redo) \<le> segment_capacity L"
    by (rule NewEntry_fits[OF n])
  show "memory w' = (memory w)(r \<mapsto> UndoObj
          \<lparr>ur_timestamp = txn_id ctx, ur_slot = slot, ur_table = table, ur_next = None,
           ur_delta = \<lparr>pr_col_ids = pr_col_ids redo, pr_values = []\<rparr>\<rparr>)"
    using NewEntry_world[OF n] by (simp add: m)
next
  assume a: "UndoRecordForInsert L table slot ini (ctx, w) = Inr (r, ctx', w')"
  from UndoRecordForInsert_Inr[OF a] obtain buf w1 where
    n: "NewEntry L (UndoRecord_Size_init L ini) (undo_buffer ctx) w = Inr (r, buf, w1)"
    and c: "ctx' = ctx\<lparr>undo_buffer := buf\<rparr>"
    and m: "w' = w1\<lparr>memory := (memory w1)(r \<mapsto> UndoObj
                \<lparr>ur_timestamp = txn_id ctx, ur_slot = slot, ur_table = table, ur_next = None,
                 ur_delta = \<lparr>pr_col_ids = pri_col_ids ini, pr_values = []\<rparr>\<rparr>)\<rparr>"
    by blast
  show "buffer_entries (undo_buffer ctx') =
        buffer_entries (undo_buffer ctx) @ [(r, unat (UndoRecord_Size_init L ini))]"
    using NewEntry_entries[OF n] by (simp add: c)
  show "occupancy (undo_buffer ctx') =
          occupancy (undo_buffer ctx) + unat (UndoRecord_Size_init L ini)"
    using NewEntry_occupancy[OF n] by (simp add: c)
  show "snd r + unat (UndoRecord_Size_init L ini) \<le> segment_capacity L"
    by (rule NewEntry_fits[OF n])
  show "memory w' = (memory w)(r \<mapsto> UndoObj
          \<lparr>ur_timestamp = txn_id ctx, ur_slot = slot, ur_table = table, ur_next = None,
           ur_delta = \<lparr>pr_col_ids = pri_col_ids ini, pr_values = []\<rparr>\<rparr>)"
    using NewEntry_world[OF n] by (simp add: m)
next
  assume a: "StageWrite L table slot ini (ctx, w) = Inr (r, ctx', w')"
  from StageWrite_Inr[OF a] obtain head buf w1 where
    n: "NewEntry L (RedoRecord_Size L ini) (redo_buffer ctx) w = Inr (head, buf, w1)"
    and r: "r = GetUnderlyingRecordBodyAs L head"
    and c: "ctx' = ctx\<lparr>redo_buffer := buf\<rparr>"
    and m: "w' = w1\<lparr>memory := (memory w1)(head \<mapsto> LogObj
                \<lparr>rr_timestamp = start_time ctx, rr_table = table, rr_slot = slot,
                 rr_delta = \<lparr>pr_col_ids = pri_col_ids ini, pr_values = []\<rparr>\<rparr>)\<rparr>"
    by blast
  have h: "(fst r, snd r - LogRecord_body_offset L) = head"
    by (simp add: r GetUnderlyingRecordBodyAs_def)
  show "buffer_entries (redo_buffer ctx') =
        buffer_entries (redo_buffer ctx)
          @ [((fst r, snd r - LogRecord_body_offset L), unat (RedoRecord_Size L ini))]"
    unfolding h using NewEntry_entries[OF n] by (simp add: c)
  show "occupancy (redo_buffer ctx') =
          occupancy (redo_buffer ctx) + unat (RedoRecord_Size L ini)"
    using NewEntry_occupancy[OF n] by (simp add: c)
  show "snd r - LogRecord_body_offset L + unat (RedoRecord_Size L ini) \<le> segment_capacity L"
    using NewEntry_fits[OF n] h[symmetric] by simp
  show "memory w' = (memory w)((fst r, snd r - LogRecord_body_offset L) \<mapsto> LogObj
          \<lparr>rr_timestamp = start_time ctx, rr_table = table, rr_slot = slot,
           rr_delta = \<lparr>pr_col_ids = pri_col_ids ini, pr_values = []\<rparr>\<rparr>)"
    unfolding h using NewEntry_world[OF n] by (simp add: m)
next
  fix e assume "NewEntry L (UndoRecord_Size_row L redo) (undo_buffer ctx) w = Inl e"
  then show "UndoRecordForUpdate L table slot redo (ctx, w) = Inl e"
    by (simp add: UndoRecordForUpdate_def)
next
  fix e assume "NewEntry L (UndoRecord_Size_init L ini) (undo_buffer ctx) w = Inl e"
  then show "UndoRecordForInsert L table slot ini (ctx, w) = Inl e"
    by (simp add: UndoRecordForInsert_def)
next
  fix e assume "NewEntry L (RedoRecord_Size L ini) (redo_buffer ctx) w = Inl e"
  then show "StageWrite L table slot ini (ctx, w) = Inl e"
    by (simp add: StageWrite_def)
qed

theorem staging_reserves_exact_size_once_witness:
  "UndoRecordForUpdate example_defs 11 2 example_row (example_ctx, example_pool)
     = Inr ((7, 0), example_state1)
   \<and> buffer_entries (undo_buffer example_ctx) = []
   \<and> buffer_entries (undo_buffer (fst example_state1)) = [((7, 0), 40)]
   \<and> occupancy (undo_buffer (fst example_state1)) = occupancy (undo_buffer example_ctx) + 40
   \<and> memory (snd example_state1) = (memory example_pool)((7, 0) \<mapsto> example_undo_update)
   \<and> UndoRecordForInsert example_defs 11 4 example_init example_state3
     = Inr ((10, 0), example_state4)
   \<and> buffer_entries (undo_buffer (fst example_state4)) =
       buffer_entries (undo_buffer (fst example_state3)) @ [((10, 0), 48)]
   \<and> occupancy (undo_buffer (fst example_state4)) =
       occupancy (undo_buffer (fst example_state3)) + 48
   \<and> memory (snd example_state4) = (memory (snd example_state3))((10, 0) \<mapsto> example_undo_insert)
   \<and> StageWrite example_defs 11 2 example_init example_state1 = Inr ((8, 8), example_state2)
   \<and> buffer_entries (redo_buffer (fst example_state2)) =
       buffer_entries (redo_buffer (fst example_state1)) @ [((8, 0), 40)]
   \<and> occupancy (redo_buffer (fst example_state2)) =
       occupancy (redo_buffer (fst example_state1)) + 40
   \<and> memory (snd example_state2) = (memory (snd example_state1))((8, 0) \<mapsto> LogObj example_redo)
   \<and> NewEntry example_defs (UndoRecord_Size_row example_defs example_row)
        (undo_buffer example_ctx) example_exhausted = Inl ResourceExhaustion
   \<and> UndoRecordForUpdate example_defs 11 2 example_row (example_ctx, example_exhausted)
       = Inl ResourceExhaustion
   \<and> UndoRecordForInsert example_defs 11 4 example_init example_state4 = Inl ResourceExhaustion
   \<and> StageWrite example_defs 11 2 example_init example_state4 = Inl ResourceExhaustion"
proof -
  have a: "UndoRecordForUpdate example_defs 11 2 example_row (example_ctx, example_pool)
     = Inr ((7, 0), fst example_state1, snd example_state1)"
    by (simp add: example_step1)
  have b: "UndoRecordForInsert example_defs 11 4 example_init (fst example_state3, snd example_state3)
     = Inr ((10, 0), fst example_state4, snd example_state4)"
    by (simp add: example_step4)
  have c: "StageWrite example_defs 11 2 example_init (fst example_state1, snd example_state1)
     = Inr ((8, 8), fst example_state2, snd example_state2)"
    by (simp add: example_step2)
  note t = staging_reserves_exact_size_once
  note t1 = t[where L = example_defs and table = 11 and slot = 2 and redo = example_row
      and ctx = example_ctx and w = example_pool and r = "(7, 0)"
      and ctx' = "fst example_state1" and w' = "snd example_state1" and ini = example_init,
      THEN conjunct1, THEN mp, OF a]
  note t2 = t[where L = example_defs and table = 11 and slot = 4 and redo = example_row
      and ctx = "fst example_state3" and w = "snd example_state3" and r = "(10, 0)"
      and ctx' = "fst example_state4" and w' = "snd example_state4" and ini = example_init,
      THEN conjunct2, THEN conjunct1, THEN mp, OF b]
  note t3 = t[where L = example_defs and table = 11 and slot = 2 and redo = example_row
      and ctx = "fst example_state1" and w = "snd example_state1" and r = "(8, 8)"
      and ctx' = "fst example_state2" and w' = "snd example_state2" and ini = example_init,
      THEN conjunct2, THEN conjunct2, THEN conjunct1, THEN mp, OF c]
  note t4 = t[where L = example_defs and table = 11 and slot = 2 and redo = example_row
      and ctx = example_ctx and w = example_exhausted and r = "(7, 0)"
      and ctx' = "fst example_state1" and w' = "snd example_state1" and ini = example_init,
      THEN conjunct2, THEN conjunct2, THEN conjunct2, THEN conjunct1, THEN spec, THEN mp,
      OF example_exhausted_update]
  note t5 = t[where L = example_defs and table = 11 and slot = 4 and redo = example_row
      and ctx = "fst example_state4" and w = "snd example_state4" and r = "(7, 0)"
      and ctx' = "fst example_state1" and w' = "snd example_state1" and ini = example_init,
      THEN conjunct2, THEN conjunct2, THEN conjunct2, THEN conjunct2, THEN conjunct1, THEN spec,
      THEN mp, OF example_exhausted_insert]
  note t6 = t[where L = example_defs and table = 11 and slot = 2 and redo = example_row
      and ctx = "fst example_state4" and w = "snd example_state4" and r = "(7, 0)"
      and ctx' = "fst example_state1" and w' = "snd example_state1" and ini = example_init,
      THEN conjunct2, THEN conjunct2, THEN conjunct2, THEN conjunct2, THEN conjunct2, THEN spec,
      THEN mp, OF example_exhausted_write]
  have f: "pr_col_ids example_row = [3]" "pri_col_ids example_init = [3, 4]"
    "txn_id example_ctx = 1000" "txn_id (fst example_state3) = 1000"
    "start_time (fst example_state1) = 5"
    by (simp_all add: example_row_def example_init_def example_defs_simps example_state3_def
        example_state1_def)
  from t1 t2 t3 t4 t5 t6 show ?thesis
    unfolding example_sizes f example_entries
    by (simp add: example_step1 example_step2 example_step4 example_exhausted_update
        example_undo_update_def example_undo_insert_def example_redo_def)
qed

text \<open>
  Claim C7. A request larger than the segment capacity fails the precondition check and
  leaves the buffer and the world exactly as they were, whatever their state: no segment is
  taken from the pool, none is handed to the sink, no entry is reserved. A call that ends in a
  precondition violation has changed nothing and was for more than the capacity.
  \<open>UndoRecordForUpdate\<close> for a row whose record is that large fails the same way. A
  request that succeeds is within the capacity, and the returned region lies in one segment:
  it ends at or before the capacity of the segment the pointer names, which is the buffer's
  current segment, and it is that segment's last entry.
\<close>

theorem new_entry_within_one_segment:
  "(segment_capacity L < unat sz \<longrightarrow>
        NewEntry_effect L sz buf w = (Inl PreconditionViolation, buf, w)
      \<and> NewEntry L sz buf w = Inl PreconditionViolation)
   \<and> (NewEntry_effect L sz buf w = (Inl PreconditionViolation, buf', w') \<longrightarrow>
        buf' = buf \<and> w' = w \<and> segment_capacity L < unat sz)
   \<and> (NewEntry L sz buf w = Inr (p, buf', w') \<longrightarrow>
        unat sz \<le> segment_capacity L
      \<and> snd p + unat sz \<le> segment_capacity L
      \<and> map_option seg_id (buf_current buf') = Some (fst p)
      \<and> map_option seg_used (buf_current buf') = Some (snd p + unat sz)
      \<and> map_option (last \<circ> segment_entries) (buf_current buf') = Some (p, unat sz))
   \<and> (segment_capacity L < unat (UndoRecord_Size_row L redo) \<longrightarrow>
        UndoRecordForUpdate L table slot redo (ctx, w) = Inl PreconditionViolation)"
proof (intro conjI impI)
  assume big: "segment_capacity L < unat sz"
  then show "NewEntry_effect L sz buf w = (Inl PreconditionViolation, buf, w)"
    by (simp add: NewEntry_effect_def)
  from big show "NewEntry L sz buf w = Inl PreconditionViolation"
    by (rule NewEntry_too_large)
next
  assume "NewEntry_effect L sz buf w = (Inl PreconditionViolation, buf', w')"
  from NewEntry_effect_violation[OF this]
  show "buf' = buf" "w' = w" "segment_capacity L < unat sz" by simp_all
next
  assume n: "NewEntry L sz buf w = Inr (p, buf', w')"
  from NewEntry_current[OF n]
  show "unat sz \<le> segment_capacity L"
    "map_option seg_id (buf_current buf') = Some (fst p)"
    "map_option seg_used (buf_current buf') = Some (snd p + unat sz)"
    "map_option (last \<circ> segment_entries) (buf_current buf') = Some (p, unat sz)"
    by simp_all
  show "snd p + unat sz \<le> segment_capacity L" by (rule NewEntry_fits[OF n])
next
  assume "segment_capacity L < unat (UndoRecord_Size_row L redo)"
  then have "NewEntry L (UndoRecord_Size_row L redo) (undo_buffer ctx) w = Inl PreconditionViolation"
    by (rule NewEntry_too_large)
  then show "UndoRecordForUpdate L table slot redo (ctx, w) = Inl PreconditionViolation"
    by (simp add: UndoRecordForUpdate_def)
qed

theorem new_entry_within_one_segment_witness:
  "segment_capacity example_defs < unat (100 :: uint32_t)
   \<and> NewEntry_effect example_defs 100 (redo_buffer (fst example_state2)) (snd example_state2)
       = (Inl PreconditionViolation, redo_buffer (fst example_state2), snd example_state2)
   \<and> NewEntry example_defs 100 (redo_buffer (fst example_state2)) (snd example_state2)
       = Inl PreconditionViolation
   \<and> NewEntry example_defs 40 (redo_buffer (fst example_state2)) (snd example_state2)
       = Inr ((9, 0), redo_buffer (fst example_state3),
              (snd example_state2)\<lparr>pool_free := [10], flush_queue := [8]\<rparr>)
   \<and> snd ((9, 0) :: byte_ptr) + unat (40 :: uint32_t) \<le> segment_capacity example_defs
   \<and> map_option seg_id (buf_current (redo_buffer (fst example_state3))) = Some 9
   \<and> map_option seg_used (buf_current (redo_buffer (fst example_state3))) = Some 40
   \<and> segment_capacity example_defs < unat (UndoRecord_Size_row example_defs example_wide_row)
   \<and> UndoRecordForUpdate example_defs 11 2 example_wide_row (example_ctx, example_pool)
       = Inl PreconditionViolation"
proof -
  have big: "segment_capacity example_defs < unat (100 :: uint32_t)"
    by (simp add: example_sizes)
  have wide: "segment_capacity example_defs < unat (UndoRecord_Size_row example_defs example_wide_row)"
    by (simp add: example_sizes)
  have n: "NewEntry example_defs 40 (redo_buffer (fst example_state2)) (snd example_state2)
       = Inr ((9, 0), redo_buffer (fst example_state3),
              (snd example_state2)\<lparr>pool_free := [10], flush_queue := [8]\<rparr>)"
    by (simp add: NewEntry_unfold acquire_def finalize_def reserve_def has_room_def seg_used_def
        example_state2_def example_state3_def example_defs_def)
  note t = new_entry_within_one_segment
  note t1 = t[where L = example_defs and sz = 100 and buf = "redo_buffer (fst example_state2)"
      and w = "snd example_state2" and redo = example_wide_row, THEN conjunct1, THEN mp, OF big]
  have e: "NewEntry_effect example_defs 100 (redo_buffer (fst example_state2)) (snd example_state2)
       = (Inl PreconditionViolation, redo_buffer (fst example_state2), snd example_state2)"
    using t1 by simp
  note t1' = t[where L = example_defs and sz = 100 and buf = "redo_buffer (fst example_state2)"
      and w = "snd example_state2" and redo = example_wide_row
      and buf' = "redo_buffer (fst example_state2)" and w' = "snd example_state2",
      THEN conjunct2, THEN conjunct1, THEN mp, OF e]
  note t2 = t[where L = example_defs and sz = 40 and buf = "redo_buffer (fst example_state2)"
      and w = "snd example_state2" and redo = example_wide_row, THEN conjunct2, THEN conjunct2,
      THEN conjunct1, THEN mp, OF n]
  note t3 = t[where L = example_defs and sz = 40 and redo = example_wide_row and table = 11
      and slot = 2 and ctx = example_ctx and w = example_pool,
      THEN conjunct2, THEN conjunct2, THEN conjunct2, THEN mp, OF wide]
  from t1 t1' t2 t3 big wide n show ?thesis by simp
qed

text \<open>
  Claim C8. For a staging call whose record fits a segment, the call fails exactly when
  its buffer needs a new segment and the pool has none, and the failure is resource
  exhaustion; in every other case it returns a record. A successful call has drawn at most
  one block from the pool: nothing is retried.
\<close>

theorem staging_fails_only_on_exhaustion:
  assumes "unat (call_size L c) \<le> segment_capacity L"
  shows "(needs_segment L (call_buffer c ctx) (call_size L c) \<and> pool_free w = [] \<longrightarrow>
            stage L c (ctx, w) = Inl ResourceExhaustion)
       \<and> (\<not> (needs_segment L (call_buffer c ctx) (call_size L c) \<and> pool_free w = []) \<longrightarrow>
            (\<exists>r ctx' w'. stage L c (ctx, w) = Inr (r, ctx', w')
               \<and> (pool_free w = pool_free w' \<or> (\<exists>sid. pool_free w = sid # pool_free w'))))"
proof (intro conjI impI)
  assume "needs_segment L (call_buffer c ctx) (call_size L c) \<and> pool_free w = []"
  with NewEntry_total[OF assms, of "call_buffer c ctx" w]
  have "NewEntry L (call_size L c) (call_buffer c ctx) w = Inl ResourceExhaustion" by blast
  then show "stage L c (ctx, w) = Inl ResourceExhaustion" by (rule stage_Inl)
next
  assume "\<not> (needs_segment L (call_buffer c ctx) (call_size L c) \<and> pool_free w = [])"
  with NewEntry_total[OF assms, of "call_buffer c ctx" w]
  obtain p buf w1 where n: "NewEntry L (call_size L c) (call_buffer c ctx) w = Inr (p, buf, w1)"
    and pl: "pool_free w = pool_free w1 \<or> (\<exists>sid. pool_free w = sid # pool_free w1)"
    by blast
  from stage_Inr_pool[OF n] obtain r ctx' w' where
    "stage L c (ctx, w) = Inr (r, ctx', w')" "pool_free w' = pool_free w1" by blast
  with pl show "\<exists>r ctx' w'. stage L c (ctx, w) = Inr (r, ctx', w')
               \<and> (pool_free w = pool_free w' \<or> (\<exists>sid. pool_free w = sid # pool_free w'))"
    by auto
qed

theorem staging_fails_only_on_exhaustion_witness:
  "unat (call_size example_defs (CallUndoRecordForUpdate 11 2 example_row))
     \<le> segment_capacity example_defs
   \<and> needs_segment example_defs (undo_buffer example_ctx)
        (call_size example_defs (CallUndoRecordForUpdate 11 2 example_row))
   \<and> pool_free example_exhausted = []
   \<and> stage example_defs (CallUndoRecordForUpdate 11 2 example_row) (example_ctx, example_exhausted)
       = Inl ResourceExhaustion
   \<and> pool_free example_pool = [7, 8, 9, 10]
   \<and> stage example_defs (CallUndoRecordForUpdate 11 2 example_row) (example_ctx, example_pool)
       = Inr ((7, 0), example_state1)
   \<and> pool_free (snd example_state1) = [8, 9, 10]"
proof -
  let ?c = "CallUndoRecordForUpdate 11 2 example_row"
  have h: "unat (call_size example_defs ?c) \<le> segment_capacity example_defs"
    by (simp add: example_sizes)
  have nd: "needs_segment example_defs (call_buffer ?c example_ctx) (call_size example_defs ?c)"
    by (simp add: needs_segment_def example_defs_simps)
  have em: "pool_free example_exhausted = []"
    by (simp add: example_exhausted_def)
  have ne: "pool_free example_pool = [7, 8, 9, 10]" "pool_free (snd example_state1) = [8, 9, 10]"
    by (simp_all add: example_pool_def example_state1_def)
  note t1 = staging_fails_only_on_exhaustion[OF h, of example_ctx example_exhausted,
      THEN conjunct1, THEN mp, OF conjI, OF nd em]
  have nn: "\<not> (needs_segment example_defs (call_buffer ?c example_ctx) (call_size example_defs ?c)
      \<and> pool_free example_pool = [])"
    by (simp add: ne)
  note t2 = staging_fails_only_on_exhaustion[OF h, of example_ctx example_pool,
      THEN conjunct2, THEN mp, OF nn]
  from t1 t2 h nd em ne show ?thesis
    by (simp add: example_step1)
qed

text \<open>
  Claim C9. A successful \<open>UndoRecordForUpdate\<close> changes nothing of the context but the
  undo buffer, whose occupancy grows by the size of the record: the start time, the
  transaction identifier and the redo buffer are as before. No version chain head changes,
  no other record in memory changes, and the new record's link to a previous version is
  empty.
\<close>

theorem undo_for_update_only_consumes_undo_buffer:
  assumes "UndoRecordForUpdate L table slot redo (ctx, w) = Inr (r, ctx', w')"
  shows "start_time ctx' = start_time ctx \<and> txn_id ctx' = txn_id ctx
       \<and> redo_buffer ctx' = redo_buffer ctx
       \<and> ctx' = ctx\<lparr>undo_buffer := undo_buffer ctx'\<rparr>
       \<and> occupancy (undo_buffer ctx') =
           occupancy (undo_buffer ctx) + unat (UndoRecord_Size_row L redo)
       \<and> version_chain w' = version_chain w
       \<and> (\<forall>q. q \<noteq> r \<longrightarrow> memory w' q = memory w q)
       \<and> memory w' r = Some (UndoObj
            \<lparr>ur_timestamp = txn_id ctx, ur_slot = slot, ur_table = table, ur_next = None,
             ur_delta = \<lparr>pr_col_ids = pr_col_ids redo, pr_values = []\<rparr>\<rparr>)"
proof -
  from UndoRecordForUpdate_Inr[OF assms] obtain buf w1 where
    n: "NewEntry L (UndoRecord_Size_row L redo) (undo_buffer ctx) w = Inr (r, buf, w1)"
    and c: "ctx' = ctx\<lparr>undo_buffer := buf\<rparr>"
    and m: "w' = w1\<lparr>memory := (memory w1)(r \<mapsto> UndoObj
                \<lparr>ur_timestamp = txn_id ctx, ur_slot = slot, ur_table = table, ur_next = None,
                 ur_delta = \<lparr>pr_col_ids = pr_col_ids redo, pr_values = []\<rparr>\<rparr>)\<rparr>"
    by blast
  from NewEntry_world[OF n] NewEntry_occupancy[OF n] show ?thesis
    by (simp add: c m)
qed

theorem undo_for_update_only_consumes_undo_buffer_witness:
  "UndoRecordForUpdate example_defs 11 2 example_row (example_ctx, example_pool)
     = Inr ((7, 0), example_state1)
   \<and> start_time (fst example_state1) = start_time example_ctx
   \<and> txn_id (fst example_state1) = txn_id example_ctx
   \<and> redo_buffer (fst example_state1) = redo_buffer example_ctx
   \<and> occupancy (undo_buffer example_ctx) = 0
   \<and> occupancy (undo_buffer (fst example_state1)) = 40
   \<and> version_chain (snd example_state1) = version_chain example_pool
   \<and> memory (snd example_state1) (7, 8) = memory example_pool (7, 8)
   \<and> memory (snd example_state1) (7, 0) = Some (UndoObj
        \<lparr>ur_timestamp = 1000, ur_slot = 2, ur_table = 11, ur_next = None,
         ur_delta = \<lparr>pr_col_ids = [3], pr_values = []\<rparr>\<rparr>)"
proof -
  have a: "UndoRecordForUpdate example_defs 11 2 example_row (example_ctx, example_pool)
     = Inr ((7, 0), fst example_state1, snd example_state1)"
    by (simp add: example_step1)
  note t = undo_for_update_only_consumes_undo_buffer[OF a]
  have e: "unat (UndoRecord_Size_row example_defs example_row) = 40"
    "occupancy (undo_buffer example_ctx) = 0"
    by (simp_all add: example_defs_simps buffer_defs)
  have f: "pr_col_ids example_row = [3]" "txn_id example_ctx = 1000"
    by (simp_all add: example_row_def example_defs_simps)
  from t have "memory (snd example_state1) (7, 8) = memory example_pool (7, 8)"
    by simp
  with t show ?thesis
    unfolding e f by (simp add: example_step1)
qed



end
